theory Spec2Isabelle
  imports Main "HOL-Library.Multiset"
begin

section \<open>Reviewer assignment service: storage layer\<close>

text \<open>
  A shallow embedding of \<^verbatim>\<open>internal/storage/storage.go\<close> and of the schema of
  \<^verbatim>\<open>internal/storage/init.go\<close>. The relational store is a record of four tables, each
  a list of rows in storage order. Every method of \<^verbatim>\<open>Storage\<close> takes the store and
  returns its result together with the store it leaves behind; a transaction that is
  rolled back leaves the store it started from.

  What the Go code obtains from outside is a parameter of the model:
  the wall clock (\<^verbatim>\<open>time.Now()\<close>), the clock of the database (\<^verbatim>\<open>NOW()\<close>, the
  default of \<^verbatim>\<open>assigned_at\<close>) and the draws of the shared \<^verbatim>\<open>*rand.Rand\<close>.
  Times are integers. A Go time written to a \<^verbatim>\<open>TIMESTAMP\<close> column does not come back
  as it went in (the column keeps microseconds and no zone): the methods that write one
  take a function \<open>ts\<close>, and a column holds \<open>ts t\<close> where the code wrote \<open>t\<close>. Nothing
  is assumed of \<open>ts\<close>. A string is the list of its characters, and a \<^verbatim>\<open>VARCHAR(n)\<close>
  column takes a value the way the database does (see \<open>varchar\<close> below).

  Outside the model: a database that cannot be reached, text the database does not
  accept as such, and the columns \<^verbatim>\<open>created_at\<close>/\<^verbatim>\<open>updated_at\<close> of teams and users,
  which no query reads. Where a query has no \<^verbatim>\<open>ORDER BY\<close>, or its sort key has
  ties, rows come in storage order.
\<close>

subsection \<open>Errors and models (\<^verbatim>\<open>models.go\<close>)\<close>

datatype error =
    ErrTeamExists
  | ErrPRExists
  | ErrPRMerged
  | ErrNotFound
  | ErrNotAssigned
  | ErrNoCandidate
  | ErrAuthorNotFound
  | ErrNoRows \<comment> \<open>\<^verbatim>\<open>sql.ErrNoRows\<close> passed on unclassified\<close>
  | ErrDatabase \<comment> \<open>any other error of the database: a key or a column width refused a statement\<close>

datatype PRStatus = StatusOpen | StatusMerged

text \<open>\<^verbatim>\<open>models.User\<close>, also the row type of table \<^verbatim>\<open>users\<close> (fields named by column).\<close>

record User =
  user_id :: string
  username :: string
  team_name :: string
  is_active :: bool

text \<open>\<^verbatim>\<open>models.Team\<close> (\<^verbatim>\<open>Name\<close>, \<^verbatim>\<open>Members\<close>).\<close>

record Team =
  TeamName :: string
  Members :: "User list"

text \<open>\<^verbatim>\<open>models.PullRequest\<close>.\<close>

record PullRequest =
  ID :: string
  Name :: string
  AuthorID :: string
  Status :: PRStatus
  AssignedReviewers :: "string list"
  CreatedAt :: int
  MergedAt :: "int option"

subsection \<open>Tables (\<^verbatim>\<open>init.go\<close>)\<close>

record pr_row =
  pull_request_id :: string
  pull_request_name :: string
  author_id :: string
  status :: PRStatus
  created_at :: int
  merged_at :: "int option"

record reviewer_row =
  pr_id :: string
  reviewer_id :: string
  assigned_at :: int

record db =
  teams :: "string list"
  users :: "User list"
  pull_requests :: "pr_row list"
  pr_reviewers :: "reviewer_row list"

text \<open>
  Storing a value in a \<^verbatim>\<open>VARCHAR(n)\<close> column: a value of at most \<open>n\<close> characters is
  stored as it is; a longer one is refused, unless all the characters beyond the first
  \<open>n\<close> are spaces, in which case the first \<open>n\<close> are stored.
\<close>

definition varchar :: "nat \<Rightarrow> string \<Rightarrow> string option" where
  "varchar n v =
     (if length v \<le> n then Some v
      else if \<forall>c \<in> set (drop n v). c = CHR '' '' then Some (take n v)
      else None)"

type_synonym rng = "nat \<Rightarrow> nat"

subsection \<open>The random source\<close>

text \<open>
  \<^verbatim>\<open>math/rand\<close> is a library, not part of the repository. A value \<open>r :: rng\<close> stands
  for the draws of one call: \<open>r n\<close> is the raw number behind \<^verbatim>\<open>Intn(n)\<close>, which the
  library reduces into \<open>[0, n)\<close>. \<^verbatim>\<open>Shuffle(n, swap)\<close> is the library's loop
  \<^verbatim>\<open>for i := n - 1; i > 0; i-- { j := Intn(i + 1); swap(i, j) }\<close>.
  \<^verbatim>\<open>Intn\<close> panics for \<open>n \<le> 0\<close>; the repository calls it with a positive
  bound only (the loop of \<^verbatim>\<open>Shuffle\<close> asks for at least 2, \<^verbatim>\<open>selectRandomReviewer\<close>
  returns before the call when its list is empty).
\<close>

definition Intn :: "rng \<Rightarrow> nat \<Rightarrow> nat" where
  "Intn r n = r n mod n"

definition swap :: "nat \<Rightarrow> nat \<Rightarrow> 'a list \<Rightarrow> 'a list" where
  "swap i j xs = xs[i := xs ! j, j := xs ! i]"

fun shuffle_from :: "rng \<Rightarrow> nat \<Rightarrow> 'a list \<Rightarrow> 'a list" where
  "shuffle_from r 0 xs = xs"
| "shuffle_from r (Suc k) xs = shuffle_from r k (swap (Suc k) (Intn r (Suc k + 1)) xs)"

definition Shuffle :: "rng \<Rightarrow> 'a list \<Rightarrow> 'a list" where
  "Shuffle r xs = shuffle_from r (length xs - 1) xs"

subsection \<open>Helper methods\<close>

definition selectRandomReviewers :: "rng \<Rightarrow> string list \<Rightarrow> nat \<Rightarrow> string list" where
  "selectRandomReviewers r candidates mx =
     (if length candidates = 0 then []
      else let shuffled = Shuffle r candidates
           in if length shuffled \<le> mx then shuffled else take mx shuffled)"

definition selectRandomReviewer :: "rng \<Rightarrow> string list \<Rightarrow> string" where
  "selectRandomReviewer r candidates =
     (if length candidates = 0 then ''''
      else candidates ! Intn r (length candidates))"

fun contains :: "string list \<Rightarrow> string \<Rightarrow> bool" where
  "contains [] item = False"
| "contains (s # slice) item = (if s = item then True else contains slice item)"

fun replaceInSlice :: "string list \<Rightarrow> string \<Rightarrow> string \<Rightarrow> string list" where
  "replaceInSlice [] old new = []"
| "replaceInSlice (item # slice) old new =
     (if item = old then new else item) # replaceInSlice slice old new"

text \<open>\<^verbatim>\<open>SELECT reviewer_id FROM pr_reviewers WHERE pr_id = $1 ORDER BY assigned_at\<close>\<close>

definition getPRReviewers :: "db \<Rightarrow> string \<Rightarrow> string list" where
  "getPRReviewers s prID =
     map reviewer_id (sort_key assigned_at (filter (\<lambda>x. pr_id x = prID) (pr_reviewers s)))"

definition getPRWithReviewers :: "db \<Rightarrow> string \<Rightarrow> error + PullRequest" where
  "getPRWithReviewers s prID =
     (case find (\<lambda>p. pull_request_id p = prID) (pull_requests s) of
        None \<Rightarrow> Inl ErrNotFound
      | Some p \<Rightarrow> Inr \<lparr>ID = pull_request_id p, Name = pull_request_name p,
                       AuthorID = author_id p, Status = status p,
                       AssignedReviewers = getPRReviewers s prID,
                       CreatedAt = created_at p, MergedAt = merged_at p\<rparr>)"

text \<open>
  The query of \<^verbatim>\<open>findReplacementCandidates\<close>: the fixed conditions on team, activity,
  author and excluded reviewer, and one more \<^verbatim>\<open>AND user_id != $n\<close> for every current
  reviewer other than the excluded one.
\<close>

definition findReplacementCandidates ::
  "db \<Rightarrow> string \<Rightarrow> string \<Rightarrow> string list \<Rightarrow> string \<Rightarrow> string list" where
  "findReplacementCandidates s teamName authorID currentReviewers excludeReviewer =
     (let params = filter (\<lambda>reviewer. reviewer \<noteq> excludeReviewer) currentReviewers
      in map user_id
           (filter (\<lambda>u. team_name u = teamName \<and> is_active u
                         \<and> user_id u \<noteq> authorID \<and> user_id u \<noteq> excludeReviewer
                         \<and> (\<forall>p \<in> set params. user_id u \<noteq> p))
                   (users s)))"

subsection \<open>Statements that write\<close>

text \<open>
  \<^verbatim>\<open>INSERT INTO users ... ON CONFLICT (user_id) DO UPDATE SET username, team_name,
  is_active\<close>: the row with that key is overwritten where it stands, or a new row is added.
\<close>

definition upsert_user :: "User \<Rightarrow> User list \<Rightarrow> User list" where
  "upsert_user u us =
     (if user_id u \<in> set (map user_id us)
      then map (\<lambda>row. if user_id row = user_id u then u else row) us
      else us @ [u])"

text \<open>
  \<^verbatim>\<open>INSERT INTO pull_requests (pull_request_id, pull_request_name, author_id, status,
  created_at)\<close>: refused when a value does not go into its column (\<^verbatim>\<open>VARCHAR(50)\<close>,
  \<^verbatim>\<open>VARCHAR(200)\<close>, \<^verbatim>\<open>VARCHAR(50)\<close>), when the primary key is taken or when the
  author is no user. The status written is \<^verbatim>\<open>OPEN\<close>, and \<open>t\<close> is what the column
  keeps of the time written.
\<close>

definition insert_pull_request :: "string \<Rightarrow> string \<Rightarrow> string \<Rightarrow> int \<Rightarrow> db \<Rightarrow> db option" where
  "insert_pull_request prID prName authorID t s =
     (case (varchar 50 prID, varchar 200 prName, varchar 50 authorID) of
        (Some i, Some n, Some a) \<Rightarrow>
          if i \<in> set (map pull_request_id (pull_requests s))
             \<or> a \<notin> set (map user_id (users s))
          then None
          else Some (s\<lparr>pull_requests := pull_requests s
                         @ [\<lparr>pull_request_id = i, pull_request_name = n, author_id = a,
                             status = StatusOpen, created_at = t, merged_at = None\<rparr>]\<rparr>)
      | _ \<Rightarrow> None)"

text \<open>
  \<^verbatim>\<open>INSERT INTO pr_reviewers (pr_id, reviewer_id)\<close>: refused when a value does not go
  into its column (\<^verbatim>\<open>VARCHAR(50)\<close> both), when the primary key \<^verbatim>\<open>(pr_id, reviewer_id)\<close>
  is taken or when a foreign key has no target.
\<close>

definition insert_reviewer :: "string \<Rightarrow> string \<Rightarrow> int \<Rightarrow> db \<Rightarrow> db option" where
  "insert_reviewer prID reviewer dbnow s =
     (case (varchar 50 prID, varchar 50 reviewer) of
        (Some p, Some v) \<Rightarrow>
          if (p, v) \<in> set (map (\<lambda>x. (pr_id x, reviewer_id x)) (pr_reviewers s))
             \<or> p \<notin> set (map pull_request_id (pull_requests s))
             \<or> v \<notin> set (map user_id (users s))
          then None
          else Some (s\<lparr>pr_reviewers := pr_reviewers s
                         @ [\<lparr>pr_id = p, reviewer_id = v, assigned_at = dbnow\<rparr>]\<rparr>)
      | _ \<Rightarrow> None)"

fun insert_reviewers :: "string \<Rightarrow> string list \<Rightarrow> int \<Rightarrow> db \<Rightarrow> db option" where
  "insert_reviewers prID [] dbnow s = Some s"
| "insert_reviewers prID (reviewer # rest) dbnow s =
     (case insert_reviewer prID reviewer dbnow s of
        None \<Rightarrow> None
      | Some s' \<Rightarrow> insert_reviewers prID rest dbnow s')"

subsection \<open>Team and user methods\<close>

text \<open>
  The loop over the members: each is upserted with the name of the team as its team.
  The values go into \<^verbatim>\<open>VARCHAR(50)\<close>, \<^verbatim>\<open>VARCHAR(100)\<close> and \<^verbatim>\<open>VARCHAR(100)\<close>; the first
  statement that is refused ends the loop. (The team of the row is the name just
  inserted into \<^verbatim>\<open>teams\<close>, so its foreign key has a target.)
\<close>

fun upsert_members :: "string \<Rightarrow> User list \<Rightarrow> User list \<Rightarrow> User list option" where
  "upsert_members teamName [] us = Some us"
| "upsert_members teamName (member # rest) us =
     (case (varchar 50 (user_id member), varchar 100 (username member), varchar 100 teamName) of
        (Some i, Some n, Some t) \<Rightarrow>
          upsert_members teamName rest
            (upsert_user \<lparr>user_id = i, username = n, team_name = t,
                          is_active = is_active member\<rparr> us)
      | _ \<Rightarrow> None)"

text \<open>
  \<^verbatim>\<open>CreateTeam\<close> inserts the team and recognises the refusal of a duplicate name by
  the text of the driver's error (\<^verbatim>\<open>pq: duplicate key value violates unique constraint
  "teams_pkey"\<close>, the message of a server that reports in English); any other refusal
  is passed on. Then it upserts the members one by one. A failure rolls everything back.
\<close>

definition CreateTeam :: "db \<Rightarrow> Team \<Rightarrow> (error + unit) \<times> db" where
  "CreateTeam s team =
     (case varchar 100 (TeamName team) of
        None \<Rightarrow> (Inl ErrDatabase, s)
      | Some n \<Rightarrow>
          if n \<in> set (teams s) then (Inl ErrTeamExists, s)
          else
            (case upsert_members (TeamName team) (Members team) (users s) of
               None \<Rightarrow> (Inl ErrDatabase, s)
             | Some us \<Rightarrow> (Inr (), s\<lparr>teams := teams s @ [n], users := us\<rparr>)))"

definition SetUserActive :: "db \<Rightarrow> string \<Rightarrow> bool \<Rightarrow> (error + User) \<times> db" where
  "SetUserActive s userID isActive =
     (case find (\<lambda>u. user_id u = userID) (users s) of
        None \<Rightarrow> (Inl ErrNotFound, s)
      | Some u \<Rightarrow>
          (Inr (u\<lparr>is_active := isActive\<rparr>),
           s\<lparr>users := map (\<lambda>row. if user_id row = userID
                                  then row\<lparr>is_active := isActive\<rparr> else row) (users s)\<rparr>))"




subsection \<open>Pull request methods\<close>

definition CreatePR ::
  "db \<Rightarrow> rng \<Rightarrow> (int \<Rightarrow> int) \<Rightarrow> int \<Rightarrow> int \<Rightarrow> string \<Rightarrow> string \<Rightarrow> string
     \<Rightarrow> (error + PullRequest) \<times> db" where
  "CreatePR s r ts now dbnow reqID reqName reqAuthorID =
     (case find (\<lambda>u. user_id u = reqAuthorID) (users s) of
        None \<Rightarrow> (Inl ErrAuthorNotFound, s)
      | Some author \<Rightarrow>
          let candidateIDs =
                map user_id
                  (filter (\<lambda>u. team_name u = team_name author \<and> is_active u
                                \<and> user_id u \<noteq> user_id author) (users s));
              reviewers = selectRandomReviewers r candidateIDs 2
          in if reqID \<in> set (map pull_request_id (pull_requests s))
             then (Inl ErrPRExists, s)
             else
               (case insert_pull_request reqID reqName reqAuthorID (ts now) s of
                  None \<Rightarrow> (Inl ErrDatabase, s)
                | Some s1 \<Rightarrow>
                    (case insert_reviewers reqID reviewers dbnow s1 of
                       None \<Rightarrow> (Inl ErrDatabase, s)
                     | Some s' \<Rightarrow>
                         (Inr \<lparr>ID = reqID, Name = reqName, AuthorID = reqAuthorID,
                               Status = StatusOpen, AssignedReviewers = reviewers,
                               CreatedAt = now, MergedAt = None\<rparr>, s'))))"

text \<open>
  \<^verbatim>\<open>MergePR\<close> answers an open pull request with the time of the call as merge time
  (\<^verbatim>\<open>pr.MergedAt = &now\<close>), and the \<^verbatim>\<open>UPDATE\<close> leaves in the column what the column
  keeps of that time.
\<close>

definition MergePR :: "db \<Rightarrow> (int \<Rightarrow> int) \<Rightarrow> int \<Rightarrow> string \<Rightarrow> (error + PullRequest) \<times> db" where
  "MergePR s ts now prID =
     (case getPRWithReviewers s prID of
        Inl e \<Rightarrow> (Inl e, s)
      | Inr pr \<Rightarrow>
          if Status pr = StatusMerged then (Inr pr, s)
          else (Inr (pr\<lparr>Status := StatusMerged, MergedAt := Some now\<rparr>),
                s\<lparr>pull_requests :=
                     map (\<lambda>p. if pull_request_id p = prID
                               then p\<lparr>status := StatusMerged, merged_at := Some (ts now)\<rparr>
                               else p) (pull_requests s)\<rparr>))"

text \<open>
  \<^verbatim>\<open>ReassignReviewer\<close> up to its check for an empty pool (lines 311 to 339): the pull
  request as loaded and the candidate pool of the call.
\<close>

definition reassign_pool :: "db \<Rightarrow> string \<Rightarrow> string \<Rightarrow> error + PullRequest \<times> string list" where
  "reassign_pool s reqPRID reqOldReviewer =
     (case getPRWithReviewers s reqPRID of
        Inl e \<Rightarrow> Inl e
      | Inr pr \<Rightarrow>
          if Status pr = StatusMerged then Inl ErrPRMerged
          else if \<not> contains (AssignedReviewers pr) reqOldReviewer then Inl ErrNotAssigned
          else
            (case find (\<lambda>u. user_id u = reqOldReviewer) (users s) of
               None \<Rightarrow> Inl ErrNoRows
             | Some old \<Rightarrow>
                 let candidateIDs =
                       findReplacementCandidates s (team_name old) (AuthorID pr)
                         (AssignedReviewers pr) reqOldReviewer
                 in if length candidateIDs = 0 then Inl ErrNoCandidate
                    else Inr (pr, candidateIDs)))"

definition ReassignReviewer ::
  "db \<Rightarrow> rng \<Rightarrow> int \<Rightarrow> string \<Rightarrow> string \<Rightarrow> (error + PullRequest \<times> string) \<times> db" where
  "ReassignReviewer s r dbnow reqPRID reqOldReviewer =
     (case reassign_pool s reqPRID reqOldReviewer of
        Inl e \<Rightarrow> (Inl e, s)
      | Inr (pr, candidateIDs) \<Rightarrow>
          let newReviewer = selectRandomReviewer r candidateIDs
          in (case insert_reviewer reqPRID newReviewer dbnow
                     (s\<lparr>pr_reviewers :=
                          filter (\<lambda>x. \<not> (pr_id x = reqPRID \<and> reviewer_id x = reqOldReviewer))
                                 (pr_reviewers s)\<rparr>) of
                None \<Rightarrow> (Inl ErrDatabase, s)
              | Some s' \<Rightarrow>
                  (Inr (pr\<lparr>AssignedReviewers :=
                             replaceInSlice (AssignedReviewers pr) reqOldReviewer newReviewer\<rparr>,
                        newReviewer), s')))"

subsection \<open>Stores the schema allows\<close>

text \<open>The primary keys of the four tables.\<close>

definition keys_ok :: "db \<Rightarrow> bool" where
  "keys_ok s \<longleftrightarrow>
     distinct (teams s)
     \<and> distinct (map user_id (users s))
     \<and> distinct (map pull_request_id (pull_requests s))
     \<and> distinct (map (\<lambda>x. (pr_id x, reviewer_id x)) (pr_reviewers s))"

text \<open>The widths of the character columns of the four tables.\<close>

definition widths_ok :: "db \<Rightarrow> bool" where
  "widths_ok s \<longleftrightarrow>
     (\<forall>t \<in> set (teams s). length t \<le> 100)
     \<and> (\<forall>u \<in> set (users s). length (user_id u) \<le> 50 \<and> length (username u) \<le> 100
            \<and> length (team_name u) \<le> 100)
     \<and> (\<forall>p \<in> set (pull_requests s). length (pull_request_id p) \<le> 50
            \<and> length (pull_request_name p) \<le> 200 \<and> length (author_id p) \<le> 50)
     \<and> (\<forall>x \<in> set (pr_reviewers s). length (pr_id x) \<le> 50 \<and> length (reviewer_id x) \<le> 50)"

text \<open>The foreign key of \<^verbatim>\<open>pr_reviewers\<close> into \<^verbatim>\<open>pull_requests\<close>.\<close>

definition refs_ok :: "db \<Rightarrow> bool" where
  "refs_ok s \<longleftrightarrow>
     (\<forall>x \<in> set (pr_reviewers s). pr_id x \<in> set (map pull_request_id (pull_requests s)))"

text \<open>
  The stores the service can get into: the empty schema that \<^verbatim>\<open>Init\<close> creates, and
  whatever a call of a writing method leaves behind, whether it succeeds or fails.
\<close>

definition empty_db :: db where
  "empty_db = \<lparr>teams = [], users = [], pull_requests = [], pr_reviewers = []\<rparr>"

inductive reachable :: "db \<Rightarrow> bool" where
  init: "reachable empty_db"
| create_team: "reachable s \<Longrightarrow> reachable (snd (CreateTeam s team))"
| set_active: "reachable s \<Longrightarrow> reachable (snd (SetUserActive s userID isActive))"
| create_pr:
    "reachable s \<Longrightarrow> reachable (snd (CreatePR s r ts now dbnow reqID reqName reqAuthorID))"
| merge_pr: "reachable s \<Longrightarrow> reachable (snd (MergePR s ts now prID))"
| reassign:
    "reachable s \<Longrightarrow> reachable (snd (ReassignReviewer s r dbnow reqPRID reqOldReviewer))"

subsection \<open>The eligible pool, in the words of the specification\<close>

text \<open>
  The active users on the author's team, excluding the author: the pool that the
  specification of \<^verbatim>\<open>createPR\<close> speaks of, as a set of identifiers.
\<close>

definition eligible_pool :: "db \<Rightarrow> string \<Rightarrow> string set" where
  "eligible_pool s authorID =
     user_id ` Set.filter
       (\<lambda>u. is_active u \<and> user_id u \<noteq> authorID
             \<and> (\<exists>a \<in> set (users s). user_id a = authorID \<and> team_name a = team_name u))
       (set (users s))"

subsection \<open>Example stores\<close>

definition mk_user :: "string \<Rightarrow> string \<Rightarrow> bool \<Rightarrow> User" where
  "mk_user i t act = \<lparr>user_id = i, username = i, team_name = t, is_active = act\<rparr>"

text \<open>
  Team T with four active members, and pull request p1 of author A under review by
  B and C.
\<close>

definition demo_db :: db where
  "demo_db =
     \<lparr>teams = [''T''],
      users = [mk_user ''A'' ''T'' True, mk_user ''B'' ''T'' True,
               mk_user ''C'' ''T'' True, mk_user ''D'' ''T'' True],
      pull_requests =
        [\<lparr>pull_request_id = ''p1'', pull_request_name = ''x'', author_id = ''A'',
          status = StatusOpen, created_at = 10, merged_at = None\<rparr>],
      pr_reviewers =
        [\<lparr>pr_id = ''p1'', reviewer_id = ''B'', assigned_at = 11\<rparr>,
         \<lparr>pr_id = ''p1'', reviewer_id = ''C'', assigned_at = 11\<rparr>]\<rparr>"

text \<open>The same store after p1 was merged at time 20.\<close>

definition demo_merged :: db where
  "demo_merged =
     demo_db\<lparr>pull_requests :=
        [\<lparr>pull_request_id = ''p1'', pull_request_name = ''x'', author_id = ''A'',
          status = StatusMerged, created_at = 10, merged_at = Some 20\<rparr>]\<rparr>"

text \<open>A team whose only active member is E: the pool of author E is empty.\<close>

definition demo_solo :: db where
  "demo_solo =
     \<lparr>teams = [''S''],
      users = [mk_user ''E'' ''S'' True, mk_user ''F'' ''S'' False],
      pull_requests = [],
      pr_reviewers = []\<rparr>"


text \<open>A request to create team U that names the existing user B and a new user E.\<close>

definition demo_team :: Team where
  "demo_team = \<lparr>TeamName = ''U'',
                 Members = [mk_user ''B'' ''T'' False, mk_user ''E'' ''U'' True]\<rparr>"

definition zero_rng :: rng where
  "zero_rng = (\<lambda>n. 0)"

text \<open>A column that keeps thousands where the clock counts units.\<close>

definition coarse :: "int \<Rightarrow> int" where
  "coarse t = t div 1000 * 1000"

text \<open>
  The example store after p1 was merged at time 20500, read by the clock: the column
  holds 20000.
\<close>

definition demo_merged_coarse :: db where
  "demo_merged_coarse =
     demo_db\<lparr>pull_requests :=
        [\<lparr>pull_request_id = ''p1'', pull_request_name = ''x'', author_id = ''A'',
          status = StatusMerged, created_at = 10, merged_at = Some 20000\<rparr>]\<rparr>"

text \<open>An identifier of 51 characters, one more than its column takes.\<close>

definition long_id :: string where
  "long_id = replicate 51 (CHR ''x'')"

section \<open>Properties\<close>

subsection \<open>Looking rows up\<close>

lemma find_None_conv: "find P xs = None \<longleftrightarrow> (\<forall>x \<in> set xs. \<not> P x)"
  by (induction xs) auto

lemma find_Some_mem: "find P xs = Some x \<Longrightarrow> x \<in> set xs \<and> P x"
  by (induction xs) (auto split: if_splits)

lemma find_key_Some: "k \<in> set (map f xs) \<Longrightarrow> \<exists>x. find (\<lambda>y. f y = k) xs = Some x"
  by (induction xs) auto

lemma find_map_keep:
  assumes "\<And>x. P (g x) = P x"
  shows "find P (map g xs) = map_option g (find P xs)"
  using assms by (induction xs) auto

lemma ids_merge_rows:
  "map (pull_request_id \<circ> (\<lambda>p. if pull_request_id p = prID
                               then p\<lparr>status := StatusMerged, merged_at := t\<rparr>
                               else p)) ps = map pull_request_id ps"
  by (induction ps) auto

lemma demo_load:
  "getPRWithReviewers demo_db ''p1'' =
     Inr \<lparr>ID = ''p1'', Name = ''x'', AuthorID = ''A'', Status = StatusOpen,
          AssignedReviewers = [''B'', ''C''], CreatedAt = 10, MergedAt = None\<rparr>"
  by (simp add: getPRWithReviewers_def getPRReviewers_def demo_db_def)

lemma demo_merged_load:
  "getPRWithReviewers demo_merged ''p1'' =
     Inr \<lparr>ID = ''p1'', Name = ''x'', AuthorID = ''A'', Status = StatusMerged,
          AssignedReviewers = [''B'', ''C''], CreatedAt = 10, MergedAt = Some 20\<rparr>"
  by (simp add: getPRWithReviewers_def getPRReviewers_def demo_merged_def demo_db_def)

subsection \<open>Creating a pull request: the order of the checks\<close>

text \<open>
  Claim C9. \<^verbatim>\<open>CreatePR\<close> resolves the author before it looks at the identifier of
  the pull request: when the author is not in table \<^verbatim>\<open>users\<close> the result is
  \<^verbatim>\<open>ErrAuthorNotFound\<close> and the store is untouched, whether or not the identifier is
  taken.
\<close>

theorem CreatePR_author_checked_first:
  "reqAuthorID \<notin> set (map user_id (users s)) \<Longrightarrow>
   CreatePR s r ts now dbnow reqID reqName reqAuthorID = (Inl ErrAuthorNotFound, s)"
proof -
  assume "reqAuthorID \<notin> set (map user_id (users s))"
  then have "find (\<lambda>u. user_id u = reqAuthorID) (users s) = None"
    by (auto simp: find_None_conv)
  then show ?thesis by (simp add: CreatePR_def)
qed

theorem CreatePR_author_checked_first_witness:
  "''p1'' \<in> set (map pull_request_id (pull_requests demo_db))
   \<and> ''ghost'' \<notin> set (map user_id (users demo_db))
   \<and> CreatePR demo_db zero_rng coarse 30 31 ''p1'' ''z2'' ''ghost'' = (Inl ErrAuthorNotFound, demo_db)"
proof -
  have h: "''ghost'' \<notin> set (map user_id (users demo_db))"
    by (simp add: demo_db_def mk_user_def)
  have "''p1'' \<in> set (map pull_request_id (pull_requests demo_db))"
    by (simp add: demo_db_def)
  with h CreatePR_author_checked_first [OF h, of zero_rng coarse 30 31 "''p1''" "''z2''"]
  show ?thesis by simp
qed

text \<open>
  Claim C5, as stated: every \<^verbatim>\<open>CreatePR\<close> whose identifier is taken fails with
  \<^verbatim>\<open>ErrPRExists\<close>. It does not when the author is unknown: p1 exists in the example
  store, and creating p1 for an author who is not a user is answered otherwise.
\<close>

theorem CreatePR_taken_id_not_always_PRExists:
  "''p1'' \<in> set (map pull_request_id (pull_requests demo_db))
   \<and> fst (CreatePR demo_db zero_rng coarse 30 31 ''p1'' ''z2'' ''ghost'') \<noteq> Inl ErrPRExists"
  by (simp add: CreatePR_def demo_db_def mk_user_def)

text \<open>
  Claim C5, amended. When the identifier is taken, \<^verbatim>\<open>CreatePR\<close> leaves the store as it
  was (no row of the existing pull request or of its reviewers changes, and nothing is
  added); it fails with \<^verbatim>\<open>ErrPRExists\<close> when the author exists and with
  \<^verbatim>\<open>ErrAuthorNotFound\<close> when the author does not.
\<close>

theorem CreatePR_taken_id:
  assumes "reqID \<in> set (map pull_request_id (pull_requests s))"
  shows "snd (CreatePR s r ts now dbnow reqID reqName reqAuthorID) = s
     \<and> (reqAuthorID \<in> set (map user_id (users s)) \<longrightarrow>
          fst (CreatePR s r ts now dbnow reqID reqName reqAuthorID) = Inl ErrPRExists)
     \<and> (reqAuthorID \<notin> set (map user_id (users s)) \<longrightarrow>
          fst (CreatePR s r ts now dbnow reqID reqName reqAuthorID) = Inl ErrAuthorNotFound)"
proof (cases "find (\<lambda>u. user_id u = reqAuthorID) (users s)")
  case None
  then have "reqAuthorID \<notin> set (map user_id (users s))"
    by (auto simp: find_None_conv)
  with None show ?thesis by (simp add: CreatePR_def)
next
  case (Some a)
  then have "reqAuthorID \<in> set (map user_id (users s))"
    by (auto dest: find_Some_mem)
  with Some assms show ?thesis by (simp add: CreatePR_def Let_def)
qed

theorem CreatePR_taken_id_witness:
  "snd (CreatePR demo_db zero_rng coarse 30 31 ''p1'' ''z2'' ''A'') = demo_db
   \<and> fst (CreatePR demo_db zero_rng coarse 30 31 ''p1'' ''z2'' ''A'') = Inl ErrPRExists
   \<and> fst (CreatePR demo_db zero_rng coarse 30 31 ''p1'' ''z2'' ''ghost'') = Inl ErrAuthorNotFound"
proof -
  have h: "''p1'' \<in> set (map pull_request_id (pull_requests demo_db))"
    by (simp add: demo_db_def)
  have a: "''A'' \<in> set (map user_id (users demo_db))"
    and g: "''ghost'' \<notin> set (map user_id (users demo_db))"
    by (simp_all add: demo_db_def mk_user_def)
  from CreatePR_taken_id [OF h, of zero_rng coarse 30 31 "''z2''" "''A''"]
       CreatePR_taken_id [OF h, of zero_rng coarse 30 31 "''z2''" "''ghost''"] a g
  show ?thesis by blast
qed

subsection \<open>Merged pull requests\<close>

text \<open>
  Claim C4. When the pull request is stored as merged, \<^verbatim>\<open>ReassignReviewer\<close> fails with
  \<^verbatim>\<open>ErrPRMerged\<close> and the whole store, the reviewer rows included, is what it was.
\<close>

theorem ReassignReviewer_merged:
  assumes "getPRWithReviewers s reqPRID = Inr pr" and "Status pr = StatusMerged"
  shows "ReassignReviewer s r dbnow reqPRID reqOldReviewer = (Inl ErrPRMerged, s)"
  using assms by (simp add: ReassignReviewer_def reassign_pool_def)

theorem ReassignReviewer_merged_witness:
  "ReassignReviewer demo_merged zero_rng 40 ''p1'' ''B'' = (Inl ErrPRMerged, demo_merged)"
  using ReassignReviewer_merged [OF demo_merged_load, of zero_rng 40 "''B''"] by simp

lemma demo_merged_coarse_load:
  "getPRWithReviewers demo_merged_coarse ''p1'' =
     Inr \<lparr>ID = ''p1'', Name = ''x'', AuthorID = ''A'', Status = StatusMerged,
          AssignedReviewers = [''B'', ''C''], CreatedAt = 10, MergedAt = Some 20000\<rparr>"
  by (simp add: getPRWithReviewers_def getPRReviewers_def demo_merged_coarse_def demo_db_def)

text \<open>
  Claim C3. For a pull request that exists, \<^verbatim>\<open>MergePR\<close> succeeds and answers with
  status merged. On an open one the answer is the pull request as loaded with status
  merged and the time of the call as merge time; the store then holds the pull request
  as merged, with what the column keeps of that time, and nothing else in the store
  differs. On a merged one the answer is the stored pull request and the store is left
  alone. In both cases a further call, at any time, answers without error with the
  pull request as it is stored after the first call (the status, author, reviewers and
  creation time of the first answer, and the stored merge time) and changes nothing in
  the store.
\<close>

theorem MergePR_idempotent:
  assumes "getPRWithReviewers s prID = Inr pr0"
  shows "\<exists>pr1 s1 pr2. MergePR s ts t1 prID = (Inr pr1, s1)
      \<and> Status pr1 = StatusMerged
      \<and> (Status pr0 = StatusOpen \<longrightarrow>
            pr1 = pr0\<lparr>Status := StatusMerged, MergedAt := Some t1\<rparr>
            \<and> pr2 = pr0\<lparr>Status := StatusMerged, MergedAt := Some (ts t1)\<rparr>
            \<and> teams s1 = teams s \<and> users s1 = users s \<and> pr_reviewers s1 = pr_reviewers s
            \<and> map pull_request_id (pull_requests s1) = map pull_request_id (pull_requests s)
            \<and> (\<forall>p \<in> set (pull_requests s). pull_request_id p \<noteq> prID \<longrightarrow>
                   p \<in> set (pull_requests s1)))
      \<and> (Status pr0 = StatusMerged \<longrightarrow> pr1 = pr0 \<and> pr2 = pr0 \<and> s1 = s)
      \<and> getPRWithReviewers s1 prID = Inr pr2
      \<and> MergePR s1 ts t2 prID = (Inr pr2, s1)
      \<and> ID pr2 = ID pr1 \<and> Name pr2 = Name pr1 \<and> AuthorID pr2 = AuthorID pr1
      \<and> Status pr2 = Status pr1 \<and> AssignedReviewers pr2 = AssignedReviewers pr1
      \<and> CreatedAt pr2 = CreatedAt pr1"
proof (cases "Status pr0")
  case StatusMerged
  with assms have "MergePR s ts t1 prID = (Inr pr0, s)" and "MergePR s ts t2 prID = (Inr pr0, s)"
    by (simp_all add: MergePR_def)
  with assms StatusMerged show ?thesis by simp
next
  case StatusOpen
  let ?g = "\<lambda>p. if pull_request_id p = prID
                 then p\<lparr>status := StatusMerged, merged_at := Some (ts t1)\<rparr> else p"
  let ?s1 = "s\<lparr>pull_requests := map ?g (pull_requests s)\<rparr>"
  let ?pr1 = "pr0\<lparr>Status := StatusMerged, MergedAt := Some t1\<rparr>"
  let ?pr2 = "pr0\<lparr>Status := StatusMerged, MergedAt := Some (ts t1)\<rparr>"
  from assms obtain p where p: "find (\<lambda>p. pull_request_id p = prID) (pull_requests s) = Some p"
    by (auto simp: getPRWithReviewers_def split: option.splits)
  then have pid: "pull_request_id p = prID" by (auto dest: find_Some_mem)
  have first: "MergePR s ts t1 prID = (Inr ?pr1, ?s1)"
    using assms StatusOpen by (simp add: MergePR_def)
  have "find (\<lambda>p. pull_request_id p = prID) (map ?g (pull_requests s)) = Some (?g p)"
    using p by (subst find_map_keep) auto
  moreover have "getPRReviewers ?s1 prID = getPRReviewers s prID"
    by (simp add: getPRReviewers_def)
  ultimately have load: "getPRWithReviewers ?s1 prID = Inr ?pr2"
    using assms p pid by (auto simp: getPRWithReviewers_def)
  then have second: "MergePR ?s1 ts t2 prID = (Inr ?pr2, ?s1)"
    by (simp add: MergePR_def)
  have ids: "map pull_request_id (pull_requests ?s1) = map pull_request_id (pull_requests s)"
    by (simp add: ids_merge_rows)
  have others: "\<forall>q \<in> set (pull_requests s). pull_request_id q \<noteq> prID \<longrightarrow>
                   q \<in> set (pull_requests ?s1)"
    by (auto simp: image_iff)
  show ?thesis
  proof (intro exI conjI)
    show "MergePR s ts t1 prID = (Inr ?pr1, ?s1)" by (rule first)
    show "getPRWithReviewers ?s1 prID = Inr ?pr2" by (rule load)
    show "MergePR ?s1 ts t2 prID = (Inr ?pr2, ?s1)" by (rule second)
    show "Status pr0 = StatusOpen \<longrightarrow>
            ?pr1 = pr0\<lparr>Status := StatusMerged, MergedAt := Some t1\<rparr>
            \<and> ?pr2 = pr0\<lparr>Status := StatusMerged, MergedAt := Some (ts t1)\<rparr>
            \<and> teams ?s1 = teams s \<and> users ?s1 = users s \<and> pr_reviewers ?s1 = pr_reviewers s
            \<and> map pull_request_id (pull_requests ?s1) = map pull_request_id (pull_requests s)
            \<and> (\<forall>p \<in> set (pull_requests s). pull_request_id p \<noteq> prID \<longrightarrow>
                   p \<in> set (pull_requests ?s1))"
      using ids others by simp
    show "Status pr0 = StatusMerged \<longrightarrow> ?pr1 = pr0 \<and> ?pr2 = pr0 \<and> ?s1 = s"
      using StatusOpen by simp
  qed simp_all
qed

theorem MergePR_idempotent_witness:
  "MergePR demo_db coarse 20500 ''p1'' =
     (Inr \<lparr>ID = ''p1'', Name = ''x'', AuthorID = ''A'', Status = StatusMerged,
           AssignedReviewers = [''B'', ''C''], CreatedAt = 10, MergedAt = Some 20500\<rparr>,
      demo_merged_coarse)
   \<and> MergePR demo_merged_coarse coarse 99999 ''p1'' =
     (Inr \<lparr>ID = ''p1'', Name = ''x'', AuthorID = ''A'', Status = StatusMerged,
           AssignedReviewers = [''B'', ''C''], CreatedAt = 10, MergedAt = Some 20000\<rparr>,
      demo_merged_coarse)"
proof -
  have m: "MergePR demo_db coarse 20500 ''p1'' =
     (Inr \<lparr>ID = ''p1'', Name = ''x'', AuthorID = ''A'', Status = StatusMerged,
           AssignedReviewers = [''B'', ''C''], CreatedAt = 10, MergedAt = Some 20500\<rparr>,
      demo_merged_coarse)"
    by code_simp
  from MergePR_idempotent [OF demo_load, of coarse 20500 99999] m show ?thesis
    by (auto simp: demo_merged_coarse_load)
qed

subsection \<open>Character columns\<close>

lemma varchar_fits: "length v \<le> n \<Longrightarrow> varchar n v = Some v"
  by (simp add: varchar_def)

lemma varchar_length:
  assumes "varchar n v = Some w"
  shows "length w \<le> n"
proof (cases "length v \<le> n")
  case True
  with assms show ?thesis by (simp add: varchar_def)
next
  case False
  with assms have "w = take n v" by (simp add: varchar_def split: if_split_asm)
  then show ?thesis by simp
qed

lemma long_id_refused: "varchar 50 long_id = None"
  by code_simp

lemma insert_reviewer_fits:
  "length prID \<le> 50 \<Longrightarrow> length v \<le> 50 \<Longrightarrow>
   insert_reviewer prID v t s =
     (if (prID, v) \<in> set (map (\<lambda>x. (pr_id x, reviewer_id x)) (pr_reviewers s))
         \<or> prID \<notin> set (map pull_request_id (pull_requests s))
         \<or> v \<notin> set (map user_id (users s))
      then None
      else Some (s\<lparr>pr_reviewers := pr_reviewers s
                     @ [\<lparr>pr_id = prID, reviewer_id = v, assigned_at = t\<rparr>]\<rparr>))"
  unfolding insert_reviewer_def by (simp only: varchar_fits prod.case option.case)

lemma insert_reviewer_Some:
  assumes "insert_reviewer prID v t s = Some s'"
  shows "\<exists>p w. varchar 50 prID = Some p \<and> varchar 50 v = Some w
     \<and> (p, w) \<notin> set (map (\<lambda>x. (pr_id x, reviewer_id x)) (pr_reviewers s))
     \<and> p \<in> set (map pull_request_id (pull_requests s))
     \<and> w \<in> set (map user_id (users s))
     \<and> s' = s\<lparr>pr_reviewers := pr_reviewers s
                     @ [\<lparr>pr_id = p, reviewer_id = w, assigned_at = t\<rparr>]\<rparr>"
proof (cases "varchar 50 prID")
  case None
  with assms show ?thesis by (simp add: insert_reviewer_def)
next
  case p: (Some p)
  show ?thesis
  proof (cases "varchar 50 v")
    case None
    with assms p show ?thesis by (simp add: insert_reviewer_def)
  next
    case (Some w)
    with assms p show ?thesis by (simp add: insert_reviewer_def split: if_splits)
  qed
qed

lemma widths_ok_pr_id:
  "widths_ok s \<Longrightarrow> prID \<in> set (map pull_request_id (pull_requests s)) \<Longrightarrow> length prID \<le> 50"
  by (auto simp: widths_ok_def)

lemma widths_ok_user_id:
  "widths_ok s \<Longrightarrow> v \<in> set (map user_id (users s)) \<Longrightarrow> length v \<le> 50"
  by (auto simp: widths_ok_def)

lemma getPRWithReviewers_id:
  "getPRWithReviewers s prID = Inr pr \<Longrightarrow> prID \<in> set (map pull_request_id (pull_requests s))"
  by (auto simp: getPRWithReviewers_def split: option.splits dest!: find_Some_mem)

subsection \<open>Helper methods and the candidate pool\<close>

lemma contains_iff: "contains xs x \<longleftrightarrow> x \<in> set xs"
  by (induction xs) auto

lemma replaceInSlice_map:
  "replaceInSlice xs old new = map (\<lambda>x. if x = old then new else x) xs"
  by (induction xs) auto

lemma replaceInSlice_absent: "old \<notin> set xs \<Longrightarrow> replaceInSlice xs old new = xs"
  by (induction xs) auto

lemma replaceInSlice_update:
  "distinct xs \<Longrightarrow> old \<in> set xs \<Longrightarrow>
   \<exists>i < length xs. xs ! i = old \<and> replaceInSlice xs old new = xs[i := new]"
proof (induction xs)
  case Nil
  then show ?case by simp
next
  case (Cons x xs)
  show ?case
  proof (cases "x = old")
    case True
    with Cons.prems have "old \<notin> set xs" by simp
    then have "replaceInSlice (x # xs) old new = (x # xs)[0 := new]"
      using True by (simp add: replaceInSlice_absent)
    with True show ?thesis by (intro exI [of _ 0]) simp
  next
    case False
    with Cons obtain i where "i < length xs" "xs ! i = old"
      "replaceInSlice xs old new = xs[i := new]" by auto
    with False show ?thesis by (intro exI [of _ "Suc i"]) simp
  qed
qed

lemma Intn_less: "0 < n \<Longrightarrow> Intn r n < n"
  by (simp add: Intn_def)

lemma selectRandomReviewer_mem:
  "candidates \<noteq> [] \<Longrightarrow> selectRandomReviewer r candidates \<in> set candidates"
  by (simp add: selectRandomReviewer_def Intn_less)

lemma findReplacementCandidates_mem:
  "x \<in> set (findReplacementCandidates s t a cur ex) \<longleftrightarrow>
     (\<exists>u \<in> set (users s). user_id u = x \<and> team_name u = t \<and> is_active u)
     \<and> x \<noteq> a \<and> x \<noteq> ex \<and> x \<notin> set cur"
  by (auto simp: findReplacementCandidates_def)

lemma reassign_pool_Inr:
  assumes "reassign_pool s prID old = Inr (pr, cands)"
  shows "getPRWithReviewers s prID = Inr pr \<and> Status pr = StatusOpen
     \<and> old \<in> set (AssignedReviewers pr)
     \<and> (\<exists>ou. find (\<lambda>u. user_id u = old) (users s) = Some ou
           \<and> cands = findReplacementCandidates s (team_name ou) (AuthorID pr)
                       (AssignedReviewers pr) old)
     \<and> cands \<noteq> []"
proof -
  from assms obtain pr' where l: "getPRWithReviewers s prID = Inr pr'"
    by (auto simp: reassign_pool_def split: sum.splits)
  with assms have st: "Status pr' \<noteq> StatusMerged" and c: "contains (AssignedReviewers pr') old"
    by (auto simp: reassign_pool_def split: if_splits)
  with l assms obtain ou where f: "find (\<lambda>u. user_id u = old) (users s) = Some ou"
    by (auto simp: reassign_pool_def split: option.splits)
  with l st c assms have "pr' = pr"
    and "cands = findReplacementCandidates s (team_name ou) (AuthorID pr') (AssignedReviewers pr') old"
    and "cands \<noteq> []"
    by (auto simp: reassign_pool_def Let_def split: if_splits)
  with l st c f show ?thesis
    by (cases "Status pr") (auto simp: contains_iff)
qed

lemma ReassignReviewer_Inr:
  assumes "ReassignReviewer s r dbnow prID old = (Inr (pr', new), s')"
  shows "\<exists>pr cands. reassign_pool s prID old = Inr (pr, cands)
      \<and> new = selectRandomReviewer r cands
      \<and> pr' = pr\<lparr>AssignedReviewers := replaceInSlice (AssignedReviewers pr) old new\<rparr>
      \<and> insert_reviewer prID new dbnow
           (s\<lparr>pr_reviewers := filter (\<lambda>x. \<not> (pr_id x = prID \<and> reviewer_id x = old))
                                      (pr_reviewers s)\<rparr>) = Some s'"
  using assms
  by (auto simp: ReassignReviewer_def Let_def split: sum.splits option.splits prod.splits)

lemma getPRWithReviewers_reviewers:
  "getPRWithReviewers s prID = Inr pr \<Longrightarrow> AssignedReviewers pr = getPRReviewers s prID"
  by (auto simp: getPRWithReviewers_def split: option.splits)

subsection \<open>Reassigning a reviewer\<close>

text \<open>
  Claim C10. Whenever \<^verbatim>\<open>ReassignReviewer\<close> gets past its check for an empty
  pool, the pool it hands to \<^verbatim>\<open>selectRandomReviewer\<close> is not empty, so the branch
  of \<^verbatim>\<open>selectRandomReviewer\<close> for an empty pool is not taken and the draw is an
  element of the pool; the new reviewer of every successful call is an element of the
  pool of that call.
\<close>

theorem reassign_selection_nonempty_pool:
  "(\<forall>pr cands. reassign_pool s prID old = Inr (pr, cands) \<longrightarrow>
        cands \<noteq> [] \<and> selectRandomReviewer r cands \<in> set cands)
   \<and> (\<forall>pr' new s'. ReassignReviewer s r dbnow prID old = (Inr (pr', new), s') \<longrightarrow>
        (\<exists>pr cands. reassign_pool s prID old = Inr (pr, cands) \<and> new \<in> set cands))"
proof (intro conjI allI impI)
  fix pr cands assume "reassign_pool s prID old = Inr (pr, cands)"
  then show "cands \<noteq> []" by (auto dest: reassign_pool_Inr)
  then show "selectRandomReviewer r cands \<in> set cands" by (rule selectRandomReviewer_mem)
next
  fix pr' new s' assume "ReassignReviewer s r dbnow prID old = (Inr (pr', new), s')"
  then obtain pr cands where p: "reassign_pool s prID old = Inr (pr, cands)"
    and n: "new = selectRandomReviewer r cands"
    by (blast dest: ReassignReviewer_Inr)
  from p have "cands \<noteq> []" by (auto dest: reassign_pool_Inr)
  with n have "new \<in> set cands" by (simp add: selectRandomReviewer_mem)
  with p show "\<exists>pr cands. reassign_pool s prID old = Inr (pr, cands) \<and> new \<in> set cands"
    by blast
qed

lemma demo_pool:
  "reassign_pool demo_db ''p1'' ''B'' =
     Inr (\<lparr>ID = ''p1'', Name = ''x'', AuthorID = ''A'', Status = StatusOpen,
           AssignedReviewers = [''B'', ''C''], CreatedAt = 10, MergedAt = None\<rparr>, [''D''])"
  by (simp add: reassign_pool_def demo_load)
     (simp add: demo_db_def mk_user_def findReplacementCandidates_def)

lemma demo_reassign:
  "ReassignReviewer demo_db zero_rng 40 ''p1'' ''B'' =
     (Inr (\<lparr>ID = ''p1'', Name = ''x'', AuthorID = ''A'', Status = StatusOpen,
            AssignedReviewers = [''D'', ''C''], CreatedAt = 10, MergedAt = None\<rparr>, ''D''),
      demo_db\<lparr>pr_reviewers :=
        [\<lparr>pr_id = ''p1'', reviewer_id = ''C'', assigned_at = 11\<rparr>,
         \<lparr>pr_id = ''p1'', reviewer_id = ''D'', assigned_at = 40\<rparr>]\<rparr>)"
  by code_simp

theorem reassign_selection_nonempty_pool_witness:
  "selectRandomReviewer zero_rng [''D''] \<in> set [''D'']
   \<and> (\<exists>pr cands. reassign_pool demo_db ''p1'' ''B'' = Inr (pr, cands) \<and> ''D'' \<in> set cands)"
  using reassign_selection_nonempty_pool [of demo_db "''p1''" "''B''" zero_rng 40] demo_pool demo_reassign
  by simp

lemma distinct_key_filter_length:
  "distinct (map f xs) \<Longrightarrow> k \<in> set (map f xs) \<Longrightarrow> length (filter (\<lambda>x. f x = k) xs) = 1"
proof (induction xs)
  case Nil
  then show ?case by simp
next
  case (Cons x xs)
  show ?case
  proof (cases "f x = k")
    case True
    with Cons.prems have "k \<notin> f ` set xs" by auto
    then have "filter (\<lambda>x. f x = k) xs = []" by (auto simp: filter_empty_conv)
    with True show ?thesis by simp
  next
    case False
    with Cons show ?thesis by auto
  qed
qed

lemma length_filter_split:
  "length (filter P xs) = length (filter (\<lambda>x. P x \<and> Q x) xs) + length (filter (\<lambda>x. P x \<and> \<not> Q x) xs)"
  by (induction xs) auto

lemma length_getPRReviewers:
  "length (getPRReviewers s prID) = length (filter (\<lambda>x. pr_id x = prID) (pr_reviewers s))"
  by (simp add: getPRReviewers_def)

lemma set_getPRReviewers:
  "set (getPRReviewers s prID) = reviewer_id ` {x \<in> set (pr_reviewers s). pr_id x = prID}"
  by (auto simp: getPRReviewers_def)

lemma distinct_reviewers_of_pr:
  "distinct (map (\<lambda>x. (pr_id x, reviewer_id x)) rows) \<Longrightarrow>
   distinct (map reviewer_id (filter (\<lambda>x. pr_id x = prID) rows))"
  by (induction rows) (auto simp: image_iff)

lemma distinct_getPRReviewers:
  assumes "keys_ok s"
  shows "distinct (getPRReviewers s prID)"
proof -
  let ?rows = "filter (\<lambda>x. pr_id x = prID) (pr_reviewers s)"
  have "mset (map reviewer_id (sort_key assigned_at ?rows)) = mset (map reviewer_id ?rows)"
    by simp
  then have "distinct (map reviewer_id (sort_key assigned_at ?rows))
      \<longleftrightarrow> distinct (map reviewer_id ?rows)"
    by (rule mset_eq_imp_distinct_iff)
  with assms show ?thesis
    by (simp add: getPRReviewers_def keys_ok_def distinct_reviewers_of_pr)
qed

lemma stored_count_after_swap:
  assumes k: "distinct (map (\<lambda>x. (pr_id x, reviewer_id x)) rows)"
    and m: "old \<in> reviewer_id ` {x \<in> set rows. pr_id x = prID}"
  shows "length (filter (\<lambda>x. pr_id x = prID)
            (filter (\<lambda>x. \<not> (pr_id x = prID \<and> reviewer_id x = old)) rows @ [\<lparr>pr_id = prID, reviewer_id = new, assigned_at = t\<rparr>]))
         = length (filter (\<lambda>x. pr_id x = prID) rows)"
proof -
  from m have "(prID, old) \<in> set (map (\<lambda>x. (pr_id x, reviewer_id x)) rows)" by auto
  from distinct_key_filter_length [OF k this]
  have one: "length (filter (\<lambda>x. pr_id x = prID \<and> reviewer_id x = old) rows) = 1"
    by simp
  have "filter (\<lambda>x. pr_id x = prID) (filter (\<lambda>x. \<not> (pr_id x = prID \<and> reviewer_id x = old)) rows)
      = filter (\<lambda>x. pr_id x = prID \<and> \<not> reviewer_id x = old) rows"
    by (simp add: conj_commute cong: conj_cong)
  moreover note length_filter_split [of "\<lambda>x. pr_id x = prID" rows "\<lambda>x. reviewer_id x = old"]
  ultimately show ?thesis using one by simp
qed

lemma candidate_is_user:
  "x \<in> set (findReplacementCandidates s t a cur ex) \<Longrightarrow> x \<in> set (map user_id (users s))"
  by (auto simp: findReplacementCandidates_def)

lemma ReassignReviewer_succeeds:
  assumes w: "widths_ok s"
    and l: "getPRWithReviewers s prID = Inr pr"
    and st: "Status pr = StatusOpen"
    and o: "old \<in> set (AssignedReviewers pr)"
    and f: "find (\<lambda>u. user_id u = old) (users s) = Some ou"
    and c: "findReplacementCandidates s (team_name ou) (AuthorID pr) (AssignedReviewers pr) old \<noteq> []"
  shows "\<exists>new s'. ReassignReviewer s r dbnow prID old =
           (Inr (pr\<lparr>AssignedReviewers := replaceInSlice (AssignedReviewers pr) old new\<rparr>, new), s')
         \<and> new \<in> set (findReplacementCandidates s (team_name ou) (AuthorID pr)
                          (AssignedReviewers pr) old)"
proof -
  let ?cands = "findReplacementCandidates s (team_name ou) (AuthorID pr) (AssignedReviewers pr) old"
  let ?new = "selectRandomReviewer r ?cands"
  let ?s0 = "s\<lparr>pr_reviewers := filter (\<lambda>x. \<not> (pr_id x = prID \<and> reviewer_id x = old))
                                      (pr_reviewers s)\<rparr>"
  let ?row = "\<lparr>pr_id = prID, reviewer_id = ?new, assigned_at = dbnow\<rparr>"
  have pool: "reassign_pool s prID old = Inr (pr, ?cands)"
    using l st o f c by (simp add: reassign_pool_def contains_iff Let_def)
  have mem: "?new \<in> set ?cands" using c by (rule selectRandomReviewer_mem)
  then have u: "?new \<in> set (map user_id (users s))" by (rule candidate_is_user)
  from mem have nc: "?new \<notin> set (AssignedReviewers pr)"
    by (simp add: findReplacementCandidates_mem)
  have cur: "AssignedReviewers pr = getPRReviewers s prID"
    using l by (rule getPRWithReviewers_reviewers)
  have pid: "prID \<in> set (map pull_request_id (pull_requests s))"
    using l by (rule getPRWithReviewers_id)
  have lp: "length prID \<le> 50" using w pid by (rule widths_ok_pr_id)
  have ln: "length ?new \<le> 50" using w u by (rule widths_ok_user_id)
  have free: "(prID, ?new) \<notin> set (map (\<lambda>x. (pr_id x, reviewer_id x)) (pr_reviewers ?s0))"
  proof
    assume "(prID, ?new) \<in> set (map (\<lambda>x. (pr_id x, reviewer_id x)) (pr_reviewers ?s0))"
    then obtain x where "x \<in> set (pr_reviewers s)" "pr_id x = prID" "reviewer_id x = ?new"
      by auto
    then have "?new \<in> reviewer_id ` {x \<in> set (pr_reviewers s). pr_id x = prID}"
      by (intro image_eqI [of _ _ x]) simp_all
    then have "?new \<in> set (getPRReviewers s prID)"
      by (simp only: set_getPRReviewers)
    with nc cur show False by simp
  qed
  have "insert_reviewer prID ?new dbnow ?s0 = Some (?s0\<lparr>pr_reviewers := pr_reviewers ?s0 @ [?row]\<rparr>)"
    using free pid u by (simp add: insert_reviewer_fits [OF lp ln])
  with pool have "ReassignReviewer s r dbnow prID old =
      (Inr (pr\<lparr>AssignedReviewers := replaceInSlice (AssignedReviewers pr) old ?new\<rparr>, ?new),
       ?s0\<lparr>pr_reviewers := pr_reviewers ?s0 @ [?row]\<rparr>)"
    by (simp add: ReassignReviewer_def Let_def)
  with mem show ?thesis by blast
qed

text \<open>
  Claim C2. After a successful \<^verbatim>\<open>ReassignReviewer\<close> (the pull request was open
  and the old reviewer assigned, or the call would have failed) the new reviewer is not
  the author, not the old reviewer and not among the reviewers assigned before the call;
  the new reviewer is an active user on the team of the old reviewer; the returned
  reviewer list is as long as the one before the call, and so is the stored one when
  the keys of the store are unique and its values fit their columns. And the call does
  succeed, in a store whose values fit their columns, whenever the pull request is open,
  the old reviewer is assigned to it and is a user, and the candidate pool is not empty.
\<close>

theorem ReassignReviewer_new_reviewer:
  "(\<forall>pr' new s'. ReassignReviewer s r dbnow prID old = (Inr (pr', new), s') \<longrightarrow>
       new \<noteq> AuthorID pr' \<and> new \<noteq> old \<and> new \<notin> set (getPRReviewers s prID)
       \<and> (\<exists>pr. getPRWithReviewers s prID = Inr pr \<and> Status pr = StatusOpen
              \<and> AuthorID pr = AuthorID pr' \<and> old \<in> set (AssignedReviewers pr))
       \<and> (\<exists>u ou. u \<in> set (users s) \<and> user_id u = new \<and> is_active u
              \<and> find (\<lambda>u. user_id u = old) (users s) = Some ou \<and> team_name u = team_name ou)
       \<and> length (AssignedReviewers pr') = length (getPRReviewers s prID)
       \<and> (keys_ok s \<and> widths_ok s \<longrightarrow>
              length (getPRReviewers s' prID) = length (getPRReviewers s prID)))
   \<and> (widths_ok s
        \<and> (\<exists>pr ou. getPRWithReviewers s prID = Inr pr \<and> Status pr = StatusOpen
               \<and> old \<in> set (AssignedReviewers pr)
               \<and> find (\<lambda>u. user_id u = old) (users s) = Some ou
               \<and> findReplacementCandidates s (team_name ou) (AuthorID pr)
                     (AssignedReviewers pr) old \<noteq> [])
        \<longrightarrow> (\<exists>pr' new s'. ReassignReviewer s r dbnow prID old = (Inr (pr', new), s')))"
proof (intro conjI allI impI)
  fix pr' new s'
  assume ok: "ReassignReviewer s r dbnow prID old = (Inr (pr', new), s')"
  from ReassignReviewer_Inr [OF ok] obtain pr cands where
    p: "reassign_pool s prID old = Inr (pr, cands)"
    and n: "new = selectRandomReviewer r cands"
    and pr': "pr' = pr\<lparr>AssignedReviewers := replaceInSlice (AssignedReviewers pr) old new\<rparr>"
    and ins: "insert_reviewer prID new dbnow
           (s\<lparr>pr_reviewers := filter (\<lambda>x. \<not> (pr_id x = prID \<and> reviewer_id x = old))
                                      (pr_reviewers s)\<rparr>) = Some s'"
    by blast
  from reassign_pool_Inr [OF p] obtain ou where
    l: "getPRWithReviewers s prID = Inr pr" and st: "Status pr = StatusOpen"
    and o: "old \<in> set (AssignedReviewers pr)"
    and f: "find (\<lambda>u. user_id u = old) (users s) = Some ou"
    and c: "cands = findReplacementCandidates s (team_name ou) (AuthorID pr) (AssignedReviewers pr) old"
    and ne: "cands \<noteq> []"
    by blast
  have cur: "AssignedReviewers pr = getPRReviewers s prID"
    using l by (rule getPRWithReviewers_reviewers)
  from n ne have "new \<in> set cands" by (simp add: selectRandomReviewer_mem)
  with c have mem: "(\<exists>u \<in> set (users s). user_id u = new \<and> team_name u = team_name ou \<and> is_active u)
     \<and> new \<noteq> AuthorID pr \<and> new \<noteq> old \<and> new \<notin> set (AssignedReviewers pr)"
    by (simp add: findReplacementCandidates_mem)
  have len: "length (AssignedReviewers pr') = length (getPRReviewers s prID)"
    using pr' cur by (simp add: replaceInSlice_map)
  show "new \<noteq> AuthorID pr'" using mem pr' by simp
  show "new \<noteq> old" using mem by simp
  show "new \<notin> set (getPRReviewers s prID)" using mem cur by simp
  show "\<exists>pr. getPRWithReviewers s prID = Inr pr \<and> Status pr = StatusOpen
              \<and> AuthorID pr = AuthorID pr' \<and> old \<in> set (AssignedReviewers pr)"
    using l st o pr' by simp
  show "\<exists>u ou. u \<in> set (users s) \<and> user_id u = new \<and> is_active u
              \<and> find (\<lambda>u. user_id u = old) (users s) = Some ou \<and> team_name u = team_name ou"
    using mem f by blast
  show "length (AssignedReviewers pr') = length (getPRReviewers s prID)" by (rule len)
  show "length (getPRReviewers s' prID) = length (getPRReviewers s prID)"
    if kw: "keys_ok s \<and> widths_ok s"
  proof -
    from kw have k: "keys_ok s" and w: "widths_ok s" by simp_all
    let ?s0 = "s\<lparr>pr_reviewers := filter (\<lambda>x. \<not> (pr_id x = prID \<and> reviewer_id x = old))
                                      (pr_reviewers s)\<rparr>"
    have lp: "length prID \<le> 50"
      using w getPRWithReviewers_id [OF l] by (rule widths_ok_pr_id)
    from \<open>new \<in> set cands\<close> c have "new \<in> set (map user_id (users s))"
      by (auto dest: candidate_is_user)
    with w have ln: "length new \<le> 50" by (rule widths_ok_user_id)
    from ins have s': "pr_reviewers s' =
        filter (\<lambda>x. \<not> (pr_id x = prID \<and> reviewer_id x = old)) (pr_reviewers s)
          @ [\<lparr>pr_id = prID, reviewer_id = new, assigned_at = dbnow\<rparr>]"
      unfolding insert_reviewer_fits [OF lp ln] by (auto split: if_splits)
    from o cur have "old \<in> reviewer_id ` {x \<in> set (pr_reviewers s). pr_id x = prID}"
      by (simp add: set_getPRReviewers)
    moreover from k have "distinct (map (\<lambda>x. (pr_id x, reviewer_id x)) (pr_reviewers s))"
      by (simp add: keys_ok_def)
    ultimately show ?thesis
      unfolding length_getPRReviewers s' by (simp only: stored_count_after_swap)
  qed
next
  assume h: "widths_ok s
        \<and> (\<exists>pr ou. getPRWithReviewers s prID = Inr pr \<and> Status pr = StatusOpen
               \<and> old \<in> set (AssignedReviewers pr)
               \<and> find (\<lambda>u. user_id u = old) (users s) = Some ou
               \<and> findReplacementCandidates s (team_name ou) (AuthorID pr)
                     (AssignedReviewers pr) old \<noteq> [])"
  then obtain pr ou where "widths_ok s" "getPRWithReviewers s prID = Inr pr"
    "Status pr = StatusOpen" "old \<in> set (AssignedReviewers pr)"
    "find (\<lambda>u. user_id u = old) (users s) = Some ou"
    "findReplacementCandidates s (team_name ou) (AuthorID pr) (AssignedReviewers pr) old \<noteq> []"
    by blast
  from ReassignReviewer_succeeds [OF this, of r dbnow]
  show "\<exists>pr' new s'. ReassignReviewer s r dbnow prID old = (Inr (pr', new), s')"
    by blast
qed

text \<open>
  Claim C6. The reviewer list returned by a successful \<^verbatim>\<open>ReassignReviewer\<close> is the
  list loaded at the start of the call with the old reviewer replaced by the new one:
  every other entry keeps its value and position, and in a store with unique keys the
  old reviewer stands at exactly one position, which is the one updated. And the call
  does return such a list, with a new reviewer from the candidate pool, in a store whose
  values fit their columns, whenever the pull request is open, the old reviewer is
  assigned to it and is a user, and the candidate pool is not empty.
\<close>

theorem ReassignReviewer_substitutes:
  "(\<forall>pr' new s'. ReassignReviewer s r dbnow prID old = (Inr (pr', new), s') \<longrightarrow>
       AssignedReviewers pr' = map (\<lambda>x. if x = old then new else x) (getPRReviewers s prID)
       \<and> (keys_ok s \<longrightarrow>
            (\<exists>i < length (getPRReviewers s prID). getPRReviewers s prID ! i = old
                 \<and> AssignedReviewers pr' = (getPRReviewers s prID)[i := new])))
   \<and> (widths_ok s
        \<and> (\<exists>pr ou. getPRWithReviewers s prID = Inr pr \<and> Status pr = StatusOpen
               \<and> old \<in> set (AssignedReviewers pr)
               \<and> find (\<lambda>u. user_id u = old) (users s) = Some ou
               \<and> findReplacementCandidates s (team_name ou) (AuthorID pr)
                     (AssignedReviewers pr) old \<noteq> [])
        \<longrightarrow> (\<exists>pr' new s'. ReassignReviewer s r dbnow prID old = (Inr (pr', new), s')
               \<and> AssignedReviewers pr' =
                    map (\<lambda>x. if x = old then new else x) (getPRReviewers s prID)))"
proof (intro conjI allI impI)
  fix pr' new s'
  assume ok: "ReassignReviewer s r dbnow prID old = (Inr (pr', new), s')"
  from ReassignReviewer_Inr [OF ok] obtain pr cands where
    p: "reassign_pool s prID old = Inr (pr, cands)"
    and pr': "pr' = pr\<lparr>AssignedReviewers := replaceInSlice (AssignedReviewers pr) old new\<rparr>"
    by blast
  from reassign_pool_Inr [OF p] have l: "getPRWithReviewers s prID = Inr pr"
    and o: "old \<in> set (AssignedReviewers pr)" by blast+
  have cur: "AssignedReviewers pr = getPRReviewers s prID"
    using l by (rule getPRWithReviewers_reviewers)
  have a: "AssignedReviewers pr' = replaceInSlice (getPRReviewers s prID) old new"
    using pr' cur by simp
  then show "AssignedReviewers pr' = map (\<lambda>x. if x = old then new else x) (getPRReviewers s prID)"
    by (simp add: replaceInSlice_map)
  show "\<exists>i < length (getPRReviewers s prID). getPRReviewers s prID ! i = old
               \<and> AssignedReviewers pr' = (getPRReviewers s prID)[i := new]" if "keys_ok s"
    unfolding a using distinct_getPRReviewers [OF that] o cur
    by (intro replaceInSlice_update) simp_all
next
  assume h: "widths_ok s
        \<and> (\<exists>pr ou. getPRWithReviewers s prID = Inr pr \<and> Status pr = StatusOpen
               \<and> old \<in> set (AssignedReviewers pr)
               \<and> find (\<lambda>u. user_id u = old) (users s) = Some ou
               \<and> findReplacementCandidates s (team_name ou) (AuthorID pr)
                     (AssignedReviewers pr) old \<noteq> [])"
  then obtain pr ou where a: "widths_ok s" "getPRWithReviewers s prID = Inr pr"
    "Status pr = StatusOpen" "old \<in> set (AssignedReviewers pr)"
    "find (\<lambda>u. user_id u = old) (users s) = Some ou"
    "findReplacementCandidates s (team_name ou) (AuthorID pr) (AssignedReviewers pr) old \<noteq> []"
    by blast
  from ReassignReviewer_succeeds [OF a, of r dbnow] obtain new s' where
    "ReassignReviewer s r dbnow prID old =
       (Inr (pr\<lparr>AssignedReviewers := replaceInSlice (AssignedReviewers pr) old new\<rparr>, new), s')"
    by blast
  moreover have "AssignedReviewers pr = getPRReviewers s prID"
    using a(2) by (rule getPRWithReviewers_reviewers)
  ultimately show "\<exists>pr' new s'. ReassignReviewer s r dbnow prID old = (Inr (pr', new), s')
               \<and> AssignedReviewers pr' =
                    map (\<lambda>x. if x = old then new else x) (getPRReviewers s prID)"
    by (auto simp: replaceInSlice_map)
qed

lemma demo_keys_ok: "keys_ok demo_db"
  by (simp add: keys_ok_def demo_db_def mk_user_def)

lemma demo_widths_ok: "widths_ok demo_db"
  by (simp add: widths_ok_def demo_db_def mk_user_def)

lemma demo_reviewers: "getPRReviewers demo_db ''p1'' = [''B'', ''C'']"
  by (simp add: getPRReviewers_def demo_db_def)

lemma demo_old_reviewer:
  "find (\<lambda>u. user_id u = ''B'') (users demo_db) = Some (mk_user ''B'' ''T'' True)"
  by (simp add: demo_db_def mk_user_def)

lemma demo_candidates:
  "findReplacementCandidates demo_db ''T'' ''A'' [''B'', ''C''] ''B'' = [''D'']"
  by code_simp

theorem ReassignReviewer_substitutes_witness:
  "ReassignReviewer demo_db zero_rng 40 ''p1'' ''B'' =
     (Inr (\<lparr>ID = ''p1'', Name = ''x'', AuthorID = ''A'', Status = StatusOpen,
            AssignedReviewers = [''D'', ''C''], CreatedAt = 10, MergedAt = None\<rparr>, ''D''),
      demo_db\<lparr>pr_reviewers :=
        [\<lparr>pr_id = ''p1'', reviewer_id = ''C'', assigned_at = 11\<rparr>,
         \<lparr>pr_id = ''p1'', reviewer_id = ''D'', assigned_at = 40\<rparr>]\<rparr>)
   \<and> [''D'', ''C''] = map (\<lambda>x. if x = ''B'' then ''D'' else x) (getPRReviewers demo_db ''p1'')
   \<and> (\<exists>i < length (getPRReviewers demo_db ''p1''). getPRReviewers demo_db ''p1'' ! i = ''B''
         \<and> [''D'', ''C''] = (getPRReviewers demo_db ''p1'')[i := ''D''])
   \<and> (\<exists>pr' new s'. ReassignReviewer demo_db (\<lambda>n. 7) 41 ''p1'' ''B'' = (Inr (pr', new), s')
         \<and> AssignedReviewers pr' =
              map (\<lambda>x. if x = ''B'' then new else x) (getPRReviewers demo_db ''p1''))"
proof -
  have c: "widths_ok demo_db
        \<and> (\<exists>pr ou. getPRWithReviewers demo_db ''p1'' = Inr pr \<and> Status pr = StatusOpen
               \<and> ''B'' \<in> set (AssignedReviewers pr)
               \<and> find (\<lambda>u. user_id u = ''B'') (users demo_db) = Some ou
               \<and> findReplacementCandidates demo_db (team_name ou) (AuthorID pr)
                     (AssignedReviewers pr) ''B'' \<noteq> [])"
    by (simp add: demo_widths_ok demo_load demo_old_reviewer)
       (simp add: mk_user_def demo_candidates)
  note a = ReassignReviewer_substitutes [of demo_db zero_rng 40 "''p1''" "''B''",
      THEN conjunct1, rule_format, OF demo_reassign]
  from a [simplified] demo_keys_ok
  have first: "[''D'', ''C''] = map (\<lambda>x. if x = ''B'' then ''D'' else x) (getPRReviewers demo_db ''p1'')
     \<and> (\<exists>i < length (getPRReviewers demo_db ''p1''). getPRReviewers demo_db ''p1'' ! i = ''B''
         \<and> [''D'', ''C''] = (getPRReviewers demo_db ''p1'')[i := ''D''])"
    by blast
  from ReassignReviewer_substitutes [of demo_db "\<lambda>n. 7" 41 "''p1''" "''B''"] c
  have "\<exists>pr' new s'. ReassignReviewer demo_db (\<lambda>n. 7) 41 ''p1'' ''B'' = (Inr (pr', new), s')
         \<and> AssignedReviewers pr' =
              map (\<lambda>x. if x = ''B'' then new else x) (getPRReviewers demo_db ''p1'')"
    by blast
  with first demo_reassign show ?thesis by blast
qed

theorem ReassignReviewer_new_reviewer_witness:
  "ReassignReviewer demo_db zero_rng 40 ''p1'' ''B'' =
     (Inr (\<lparr>ID = ''p1'', Name = ''x'', AuthorID = ''A'', Status = StatusOpen,
            AssignedReviewers = [''D'', ''C''], CreatedAt = 10, MergedAt = None\<rparr>, ''D''),
      demo_db\<lparr>pr_reviewers :=
        [\<lparr>pr_id = ''p1'', reviewer_id = ''C'', assigned_at = 11\<rparr>,
         \<lparr>pr_id = ''p1'', reviewer_id = ''D'', assigned_at = 40\<rparr>]\<rparr>)
   \<and> ''D'' \<noteq> ''A'' \<and> ''D'' \<noteq> ''B'' \<and> ''D'' \<notin> set (getPRReviewers demo_db ''p1'')
   \<and> (\<exists>u ou. u \<in> set (users demo_db) \<and> user_id u = ''D'' \<and> is_active u
          \<and> find (\<lambda>u. user_id u = ''B'') (users demo_db) = Some ou
          \<and> team_name u = team_name ou)
   \<and> length [''D'', ''C''] = length (getPRReviewers demo_db ''p1'')
   \<and> length (getPRReviewers (demo_db\<lparr>pr_reviewers :=
        [\<lparr>pr_id = ''p1'', reviewer_id = ''C'', assigned_at = 11\<rparr>,
         \<lparr>pr_id = ''p1'', reviewer_id = ''D'', assigned_at = 40\<rparr>]\<rparr>) ''p1'')
       = length (getPRReviewers demo_db ''p1'')
   \<and> (\<exists>pr' new s'. ReassignReviewer demo_db (\<lambda>n. 7) 41 ''p1'' ''B'' = (Inr (pr', new), s'))"
proof -
  have c: "widths_ok demo_db
        \<and> (\<exists>pr ou. getPRWithReviewers demo_db ''p1'' = Inr pr \<and> Status pr = StatusOpen
               \<and> ''B'' \<in> set (AssignedReviewers pr)
               \<and> find (\<lambda>u. user_id u = ''B'') (users demo_db) = Some ou
               \<and> findReplacementCandidates demo_db (team_name ou) (AuthorID pr)
                     (AssignedReviewers pr) ''B'' \<noteq> [])"
    by (simp add: demo_widths_ok demo_load demo_old_reviewer)
       (simp add: mk_user_def demo_candidates)
  note a = ReassignReviewer_new_reviewer [of demo_db zero_rng 40 "''p1''" "''B''",
      THEN conjunct1, rule_format, OF demo_reassign]
  from a demo_keys_ok demo_widths_ok
  have first: "''D'' \<noteq> ''A'' \<and> ''D'' \<noteq> ''B'' \<and> ''D'' \<notin> set (getPRReviewers demo_db ''p1'')
   \<and> (\<exists>u ou. u \<in> set (users demo_db) \<and> user_id u = ''D'' \<and> is_active u
          \<and> find (\<lambda>u. user_id u = ''B'') (users demo_db) = Some ou
          \<and> team_name u = team_name ou)
   \<and> length [''D'', ''C''] = length (getPRReviewers demo_db ''p1'')
   \<and> length (getPRReviewers (demo_db\<lparr>pr_reviewers :=
        [\<lparr>pr_id = ''p1'', reviewer_id = ''C'', assigned_at = 11\<rparr>,
         \<lparr>pr_id = ''p1'', reviewer_id = ''D'', assigned_at = 40\<rparr>]\<rparr>) ''p1'')
       = length (getPRReviewers demo_db ''p1'')"
    by simp
  from ReassignReviewer_new_reviewer [of demo_db "\<lambda>n. 7" 41 "''p1''" "''B''"] c
  have "\<exists>pr' new s'. ReassignReviewer demo_db (\<lambda>n. 7) 41 ''p1'' ''B'' = (Inr (pr', new), s')"
    by blast
  with first demo_reassign show ?thesis by blast
qed

subsection \<open>Shuffling and the first reviewers\<close>

lemma length_swap: "length (swap i j xs) = length xs"
  by (simp add: swap_def)

lemma mset_swap_list:
  "i < length xs \<Longrightarrow> j < length xs \<Longrightarrow> mset (swap i j xs) = mset xs"
  unfolding swap_def by (rule mset_swap)

lemma mset_shuffle_from:
  "k < length xs \<Longrightarrow> mset (shuffle_from r k xs) = mset xs"
proof (induction k arbitrary: xs)
  case 0
  then show ?case by simp
next
  case (Suc k)
  have "Intn r (Suc k + 1) < Suc k + 1" by (rule Intn_less) simp
  with Suc.prems have j: "Intn r (Suc k + 1) < length xs" by simp
  let ?ys = "swap (Suc k) (Intn r (Suc k + 1)) xs"
  have "k < length ?ys" using Suc.prems by (simp add: length_swap)
  then have "mset (shuffle_from r k ?ys) = mset ?ys" by (rule Suc.IH)
  also have "\<dots> = mset xs" using Suc.prems j by (rule mset_swap_list)
  finally show ?case by simp
qed

lemma mset_Shuffle: "mset (Shuffle r xs) = mset xs"
proof (cases xs)
  case Nil
  then show ?thesis by (simp add: Shuffle_def)
next
  case (Cons x ys)
  then have "length xs - 1 < length xs" by simp
  then show ?thesis unfolding Shuffle_def by (rule mset_shuffle_from)
qed

lemma length_Shuffle: "length (Shuffle r xs) = length xs"
  using mset_Shuffle [of r xs] by (rule mset_eq_length)

lemma set_Shuffle: "set (Shuffle r xs) = set xs"
  using mset_Shuffle [of r xs] by (rule mset_eq_setD)

lemma distinct_Shuffle: "distinct (Shuffle r xs) \<longleftrightarrow> distinct xs"
  using mset_Shuffle [of r xs] by (rule mset_eq_imp_distinct_iff)

lemma selectRandomReviewers_take:
  "selectRandomReviewers r candidates mx = take mx (Shuffle r candidates)"
  by (cases candidates) (simp_all add: selectRandomReviewers_def Shuffle_def Let_def)

lemma length_selectRandomReviewers:
  "length (selectRandomReviewers r candidates mx) = min mx (length candidates)"
  by (simp add: selectRandomReviewers_take length_Shuffle min.commute)

lemma set_selectRandomReviewers:
  "set (selectRandomReviewers r candidates mx) \<subseteq> set candidates"
  using set_take_subset [of mx "Shuffle r candidates"]
  by (simp add: selectRandomReviewers_take set_Shuffle)

lemma distinct_selectRandomReviewers:
  "distinct candidates \<Longrightarrow> distinct (selectRandomReviewers r candidates mx)"
  by (simp add: selectRandomReviewers_take distinct_Shuffle)

lemma insert_pull_request_fits:
  "length prID \<le> 50 \<Longrightarrow> length prName \<le> 200 \<Longrightarrow> length authorID \<le> 50 \<Longrightarrow>
   insert_pull_request prID prName authorID t s =
     (if prID \<in> set (map pull_request_id (pull_requests s))
         \<or> authorID \<notin> set (map user_id (users s))
      then None
      else Some (s\<lparr>pull_requests := pull_requests s
                     @ [\<lparr>pull_request_id = prID, pull_request_name = prName,
                         author_id = authorID, status = StatusOpen, created_at = t,
                         merged_at = None\<rparr>]\<rparr>))"
  unfolding insert_pull_request_def by (simp only: varchar_fits prod.case option.case)

lemma insert_reviewers_succeed:
  assumes "distinct rv"
    and "set rv \<subseteq> set (map user_id (users s))"
    and "\<forall>v \<in> set rv. length v \<le> 50"
    and "length prID \<le> 50"
    and "prID \<in> set (map pull_request_id (pull_requests s))"
    and "\<forall>v \<in> set rv. (prID, v) \<notin> set (map (\<lambda>x. (pr_id x, reviewer_id x)) (pr_reviewers s))"
  shows "\<exists>s'. insert_reviewers prID rv t s = Some s'"
  using assms
proof (induction rv arbitrary: s)
  case Nil
  then show ?case by simp
next
  case (Cons v rest)
  let ?s1 = "s\<lparr>pr_reviewers := pr_reviewers s
                     @ [\<lparr>pr_id = prID, reviewer_id = v, assigned_at = t\<rparr>]\<rparr>"
  from Cons.prems have lv: "length v \<le> 50" by simp
  from Cons.prems have "insert_reviewer prID v t s = Some ?s1"
    by (simp add: insert_reviewer_fits [OF Cons.prems(4) lv])
  moreover have "\<exists>s'. insert_reviewers prID rest t ?s1 = Some s'"
  proof (rule Cons.IH)
    show "distinct rest" using Cons.prems(1) by simp
    show "set rest \<subseteq> set (map user_id (users ?s1))" using Cons.prems(2) by simp
    show "\<forall>v \<in> set rest. length v \<le> 50" using Cons.prems(3) by simp
    show "length prID \<le> 50" by (rule Cons.prems(4))
    show "prID \<in> set (map pull_request_id (pull_requests ?s1))" using Cons.prems(5) by simp
    show "\<forall>w \<in> set rest. (prID, w) \<notin> set (map (\<lambda>x. (pr_id x, reviewer_id x)) (pr_reviewers ?s1))"
      using Cons.prems(1,6) by auto
  qed
  ultimately show ?case by simp
qed

lemma CreatePR_Inr:
  assumes "CreatePR s r ts now dbnow reqID reqName reqAuthorID = (Inr pr, s')"
  shows "\<exists>author. find (\<lambda>u. user_id u = reqAuthorID) (users s) = Some author
     \<and> pr = \<lparr>ID = reqID, Name = reqName, AuthorID = reqAuthorID, Status = StatusOpen,
             AssignedReviewers = selectRandomReviewers r
                (map user_id
                  (filter (\<lambda>u. team_name u = team_name author \<and> is_active u
                                \<and> user_id u \<noteq> user_id author) (users s))) 2,
             CreatedAt = now, MergedAt = None\<rparr>
     \<and> reqID \<notin> set (map pull_request_id (pull_requests s))"
  using assms
  by (auto simp: CreatePR_def Let_def split: option.splits if_splits)

lemma unique_key_row:
  "distinct (map f xs) \<Longrightarrow> x \<in> set xs \<Longrightarrow> y \<in> set xs \<Longrightarrow> f x = f y \<Longrightarrow> x = y"
  by (induction xs) (auto simp: image_iff)

lemma eligible_pool_list:
  assumes d: "distinct (map user_id (users s))"
    and f: "find (\<lambda>u. user_id u = a) (users s) = Some author"
  shows "eligible_pool s a =
     set (map user_id (filter (\<lambda>u. team_name u = team_name author \<and> is_active u
                                \<and> user_id u \<noteq> user_id author) (users s)))"
proof -
  from f have m: "author \<in> set (users s)" and i: "user_id author = a"
    by (auto dest: find_Some_mem)
  have "(\<exists>x \<in> set (users s). user_id x = a \<and> team_name x = team_name u)
      \<longleftrightarrow> team_name u = team_name author" for u
  proof
    assume "\<exists>x \<in> set (users s). user_id x = a \<and> team_name x = team_name u"
    then obtain x where "x \<in> set (users s)" "user_id x = a" "team_name x = team_name u"
      by blast
    with unique_key_row [OF d this(1) m] i show "team_name u = team_name author" by auto
  next
    assume "team_name u = team_name author"
    with m i show "\<exists>x \<in> set (users s). user_id x = a \<and> team_name x = team_name u" by auto
  qed
  then show ?thesis using i by (auto simp: eligible_pool_def)
qed

text \<open>
  Claim C1. In a store whose user identifiers are unique, the reviewers returned by a
  successful \<^verbatim>\<open>CreatePR\<close> do not include the author, are pairwise different, are
  as many as the smaller of 2 and the size of the eligible pool (the active users on
  the author's team other than the author, at the time of the call), and all belong to
  that pool. When the author exists, the identifier is free, identifier, name and
  author go into their columns (at most 50, 200 and 50 characters) and the pool is
  empty, the call succeeds with no reviewers. And whatever the pool, the call succeeds
  when the author exists, the identifier is free, identifier and name go into their
  columns, and the store keeps to the column widths and the foreign key of the reviewer
  rows.
\<close>

theorem CreatePR_reviewers:
  assumes d: "distinct (map user_id (users s))"
  shows "(\<forall>pr s'. CreatePR s r ts now dbnow reqID reqName reqAuthorID = (Inr pr, s') \<longrightarrow>
            reqAuthorID \<notin> set (AssignedReviewers pr)
            \<and> distinct (AssignedReviewers pr)
            \<and> length (AssignedReviewers pr) = min 2 (card (eligible_pool s reqAuthorID))
            \<and> set (AssignedReviewers pr) \<subseteq> eligible_pool s reqAuthorID)
     \<and> (reqAuthorID \<in> set (map user_id (users s))
          \<and> reqID \<notin> set (map pull_request_id (pull_requests s))
          \<and> length reqID \<le> 50 \<and> length reqName \<le> 200 \<and> length reqAuthorID \<le> 50
          \<and> eligible_pool s reqAuthorID = {} \<longrightarrow>
            (\<exists>pr s'. CreatePR s r ts now dbnow reqID reqName reqAuthorID = (Inr pr, s')
                  \<and> AssignedReviewers pr = []))
     \<and> (reqAuthorID \<in> set (map user_id (users s))
          \<and> reqID \<notin> set (map pull_request_id (pull_requests s))
          \<and> length reqID \<le> 50 \<and> length reqName \<le> 200
          \<and> widths_ok s \<and> refs_ok s \<longrightarrow>
            (\<exists>pr s'. CreatePR s r ts now dbnow reqID reqName reqAuthorID = (Inr pr, s')))"
proof (intro conjI allI impI)
  fix pr s'
  assume ok: "CreatePR s r ts now dbnow reqID reqName reqAuthorID = (Inr pr, s')"
  from CreatePR_Inr [OF ok] obtain author where
    f: "find (\<lambda>u. user_id u = reqAuthorID) (users s) = Some author"
    and rv: "AssignedReviewers pr = selectRandomReviewers r
                (map user_id
                  (filter (\<lambda>u. team_name u = team_name author \<and> is_active u
                                \<and> user_id u \<noteq> user_id author) (users s))) 2"
    by auto
  let ?pool = "map user_id
                  (filter (\<lambda>u. team_name u = team_name author \<and> is_active u
                                \<and> user_id u \<noteq> user_id author) (users s))"
  have pool: "eligible_pool s reqAuthorID = set ?pool"
    using d f by (rule eligible_pool_list)
  have dp: "distinct ?pool" using d by (simp add: distinct_map_filter)
  then have card: "card (set ?pool) = length ?pool" by (rule distinct_card)
  from f have i: "user_id author = reqAuthorID" by (auto dest: find_Some_mem)
  have sub: "set (AssignedReviewers pr) \<subseteq> set ?pool"
    unfolding rv by (rule set_selectRandomReviewers)
  then show "set (AssignedReviewers pr) \<subseteq> eligible_pool s reqAuthorID"
    by (simp only: pool)
  have "reqAuthorID \<notin> set ?pool" using i by auto
  with sub show "reqAuthorID \<notin> set (AssignedReviewers pr)" by blast
  show "distinct (AssignedReviewers pr)"
    unfolding rv using dp by (rule distinct_selectRandomReviewers)
  show "length (AssignedReviewers pr) = min 2 (card (eligible_pool s reqAuthorID))"
    unfolding rv pool card by (rule length_selectRandomReviewers)
next
  assume h: "reqAuthorID \<in> set (map user_id (users s))
          \<and> reqID \<notin> set (map pull_request_id (pull_requests s))
          \<and> length reqID \<le> 50 \<and> length reqName \<le> 200 \<and> length reqAuthorID \<le> 50
          \<and> eligible_pool s reqAuthorID = {}"
  then obtain author where f: "find (\<lambda>u. user_id u = reqAuthorID) (users s) = Some author"
    by (blast dest: find_key_Some)
  let ?pool = "map user_id
                  (filter (\<lambda>u. team_name u = team_name author \<and> is_active u
                                \<and> user_id u \<noteq> user_id author) (users s))"
  have "eligible_pool s reqAuthorID = set ?pool"
    using d f by (rule eligible_pool_list)
  with h have "?pool = []" by simp
  then have none: "selectRandomReviewers r ?pool 2 = []"
    by (simp add: selectRandomReviewers_def)
  from h have "insert_pull_request reqID reqName reqAuthorID (ts now) s =
      Some (s\<lparr>pull_requests := pull_requests s
                     @ [\<lparr>pull_request_id = reqID, pull_request_name = reqName,
                         author_id = reqAuthorID, status = StatusOpen, created_at = ts now,
                         merged_at = None\<rparr>]\<rparr>)"
    by (simp add: insert_pull_request_fits)
  with f h none show "\<exists>pr s'. CreatePR s r ts now dbnow reqID reqName reqAuthorID = (Inr pr, s')
                  \<and> AssignedReviewers pr = []"
    by (simp add: CreatePR_def Let_def)
next
  assume h: "reqAuthorID \<in> set (map user_id (users s))
          \<and> reqID \<notin> set (map pull_request_id (pull_requests s))
          \<and> length reqID \<le> 50 \<and> length reqName \<le> 200
          \<and> widths_ok s \<and> refs_ok s"
  then obtain author where f: "find (\<lambda>u. user_id u = reqAuthorID) (users s) = Some author"
    by (blast dest: find_key_Some)
  let ?pool = "map user_id
                  (filter (\<lambda>u. team_name u = team_name author \<and> is_active u
                                \<and> user_id u \<noteq> user_id author) (users s))"
  let ?rv = "selectRandomReviewers r ?pool 2"
  let ?s1 = "s\<lparr>pull_requests := pull_requests s
                     @ [\<lparr>pull_request_id = reqID, pull_request_name = reqName,
                         author_id = reqAuthorID, status = StatusOpen, created_at = ts now,
                         merged_at = None\<rparr>]\<rparr>"
  from h have "widths_ok s" and "reqAuthorID \<in> set (map user_id (users s))" by simp_all
  then have la: "length reqAuthorID \<le> 50" by (rule widths_ok_user_id)
  with h have ins: "insert_pull_request reqID reqName reqAuthorID (ts now) s = Some ?s1"
    by (simp add: insert_pull_request_fits)
  have "distinct ?pool" using d by (simp add: distinct_map_filter)
  then have 1: "distinct ?rv" by (rule distinct_selectRandomReviewers)
  have "set ?pool \<subseteq> set (map user_id (users s))" by auto
  with set_selectRandomReviewers [of r ?pool 2]
  have 2: "set ?rv \<subseteq> set (map user_id (users ?s1))" by simp
  have 3: "\<forall>v \<in> set ?rv. length v \<le> 50"
  proof
    fix v assume "v \<in> set ?rv"
    with 2 have "v \<in> set (map user_id (users s))" by auto
    with \<open>widths_ok s\<close> show "length v \<le> 50" by (rule widths_ok_user_id)
  qed
  have 4: "reqID \<in> set (map pull_request_id (pull_requests ?s1))" by simp
  have 5: "\<forall>v \<in> set ?rv. (reqID, v) \<notin> set (map (\<lambda>x. (pr_id x, reviewer_id x)) (pr_reviewers ?s1))"
    using h by (auto simp: refs_ok_def)
  from h have 6: "length reqID \<le> 50" by simp
  from insert_reviewers_succeed [OF 1 2 3 6 4 5, of dbnow] obtain s' where
    "insert_reviewers reqID ?rv dbnow ?s1 = Some s'" by blast
  with f h ins show "\<exists>pr s'. CreatePR s r ts now dbnow reqID reqName reqAuthorID = (Inr pr, s')"
    by (simp add: CreatePR_def Let_def)
qed

subsection \<open>Teams and users\<close>

lemma ids_upsert_user:
  "map user_id (upsert_user u us) =
     (if user_id u \<in> set (map user_id us) then map user_id us else map user_id us @ [user_id u])"
proof -
  have "map user_id (map (\<lambda>row. if user_id row = user_id u then u else row) us) = map user_id us"
    by (induction us) auto
  then show ?thesis by (simp add: upsert_user_def)
qed

lemma distinct_upsert_user:
  "distinct (map user_id us) \<Longrightarrow> distinct (map user_id (upsert_user u us))"
  by (simp add: ids_upsert_user)

lemma key_absent_find: "k \<notin> set (map f us) \<Longrightarrow> find (\<lambda>row. f row = k) us = None"
  unfolding find_None_conv by (metis imageI set_map)

lemma find_overwrite_other:
  "f u = k \<Longrightarrow> x \<noteq> k \<Longrightarrow>
   find (\<lambda>row. f row = x) (map (\<lambda>row. if f row = k then u else row) us)
     = find (\<lambda>row. f row = x) us"
  by (induction us) simp_all

lemma find_overwrite_same:
  "f u = k \<Longrightarrow> k \<in> f ` set us \<Longrightarrow>
   find (\<lambda>row. f row = k) (map (\<lambda>row. if f row = k then u else row) us) = Some u"
  by (induction us) auto

lemma find_snoc:
  "find P (xs @ [y]) = (case find P xs of Some z \<Rightarrow> Some z | None \<Rightarrow> if P y then Some y else None)"
  by (induction xs) auto

lemma find_upsert_user:
  "find (\<lambda>row. user_id row = x) (upsert_user u us) =
     (if x = user_id u then Some u else find (\<lambda>row. user_id row = x) us)"
proof (cases "user_id u \<in> set (map user_id us)")
  case True
  show ?thesis
  proof (cases "x = user_id u")
    case same: True
    from True have "user_id u \<in> user_id ` set us" by simp
    from find_overwrite_same [of user_id u "user_id u" us] this same True show ?thesis
      by (simp add: upsert_user_def)
  next
    case other: False
    from find_overwrite_other [of user_id u "user_id u" x us] True show ?thesis
      using other by (simp add: upsert_user_def)
  qed
next
  case False
  then have "find (\<lambda>row. user_id row = user_id u) us = None"
    by (rule key_absent_find)
  with False show ?thesis
    by (simp add: upsert_user_def find_snoc split: option.splits)
qed

lemma upsert_members_step:
  assumes "upsert_members tn (m # ms) us = Some us'"
  shows "\<exists>u. length (user_id u) \<le> 50 \<and> length (username u) \<le> 100
           \<and> length (team_name u) \<le> 100
           \<and> upsert_members tn ms (upsert_user u us) = Some us'"
proof (cases "varchar 50 (user_id m)")
  case None
  with assms show ?thesis by simp
next
  case i: (Some i)
  show ?thesis
  proof (cases "varchar 100 (username m)")
    case None
    with assms i show ?thesis by simp
  next
    case n: (Some n)
    show ?thesis
    proof (cases "varchar 100 tn")
      case None
      with assms i n show ?thesis by simp
    next
      case t: (Some t)
      let ?u = "\<lparr>user_id = i, username = n, team_name = t, is_active = is_active m\<rparr>"
      from assms i n t have "upsert_members tn ms (upsert_user ?u us) = Some us'" by simp
      moreover have "length (user_id ?u) \<le> 50" "length (username ?u) \<le> 100"
        "length (team_name ?u) \<le> 100"
        using varchar_length [OF i] varchar_length [OF n] varchar_length [OF t] by simp_all
      ultimately show ?thesis by blast
    qed
  qed
qed

lemma upsert_members_step_fits:
  "length (user_id m) \<le> 50 \<Longrightarrow> length (username m) \<le> 100 \<Longrightarrow> length tn \<le> 100 \<Longrightarrow>
   upsert_members tn (m # ms) us =
     upsert_members tn ms
       (upsert_user \<lparr>user_id = user_id m, username = username m, team_name = tn,
                     is_active = is_active m\<rparr> us)"
  by (simp add: varchar_fits)

lemma distinct_upsert_members:
  "upsert_members tn ms us = Some us' \<Longrightarrow> distinct (map user_id us) \<Longrightarrow>
   distinct (map user_id us')"
proof (induction ms arbitrary: us)
  case Nil
  then show ?case by simp
next
  case (Cons m ms)
  from upsert_members_step [OF Cons.prems(1)] obtain u where
    "upsert_members tn ms (upsert_user u us) = Some us'" by blast
  moreover from Cons.prems(2) have "distinct (map user_id (upsert_user u us))"
    by (rule distinct_upsert_user)
  ultimately show ?case by (rule Cons.IH)
qed

lemma ids_upsert_members_prefix:
  "upsert_members tn ms us = Some us' \<Longrightarrow> \<exists>new. map user_id us' = map user_id us @ new"
proof (induction ms arbitrary: us)
  case Nil
  then show ?case by simp
next
  case (Cons m ms)
  from upsert_members_step [OF Cons.prems] obtain u where
    "upsert_members tn ms (upsert_user u us) = Some us'" by blast
  from Cons.IH [OF this] obtain new where
    "map user_id us' = map user_id (upsert_user u us) @ new" by blast
  then show ?case by (auto simp: ids_upsert_user)
qed

lemma upsert_members_fits:
  assumes "length tn \<le> 100"
    and "\<forall>m \<in> set ms. length (user_id m) \<le> 50 \<and> length (username m) \<le> 100"
  shows "\<exists>us'. upsert_members tn ms us = Some us'
     \<and> set (map user_id us') = set (map user_id us) \<union> set (map user_id ms)
     \<and> (\<forall>x. find (\<lambda>row. user_id row = x) us' =
            (case find (\<lambda>m. user_id m = x) (rev ms) of
               Some m \<Rightarrow> Some \<lparr>user_id = x, username = username m, team_name = tn,
                                is_active = is_active m\<rparr>
             | None \<Rightarrow> find (\<lambda>row. user_id row = x) us))"
  using assms(2)
proof (induction ms arbitrary: us)
  case Nil
  then show ?case by simp
next
  case (Cons m ms)
  let ?u = "\<lparr>user_id = user_id m, username = username m, team_name = tn,
             is_active = is_active m\<rparr>"
  from Cons.prems have fm: "length (user_id m) \<le> 50" "length (username m) \<le> 100"
    and rest: "\<forall>m \<in> set ms. length (user_id m) \<le> 50 \<and> length (username m) \<le> 100"
    by simp_all
  have step: "upsert_members tn (m # ms) us = upsert_members tn ms (upsert_user ?u us)"
    using fm assms(1) by (rule upsert_members_step_fits)
  from Cons.IH [OF rest, of "upsert_user ?u us"] obtain us' where
    r: "upsert_members tn ms (upsert_user ?u us) = Some us'"
    and ids: "set (map user_id us') = set (map user_id (upsert_user ?u us)) \<union> set (map user_id ms)"
    and fnd: "\<And>x. find (\<lambda>row. user_id row = x) us' =
            (case find (\<lambda>m. user_id m = x) (rev ms) of
               Some m \<Rightarrow> Some \<lparr>user_id = x, username = username m, team_name = tn,
                                is_active = is_active m\<rparr>
             | None \<Rightarrow> find (\<lambda>row. user_id row = x) (upsert_user ?u us))"
    by blast
  have "set (map user_id (upsert_user ?u us)) = insert (user_id m) (set (map user_id us))"
    by (auto simp: ids_upsert_user)
  with ids have ids': "set (map user_id us') = set (map user_id us) \<union> set (map user_id (m # ms))"
    by auto
  have fnd': "find (\<lambda>row. user_id row = x) us' =
            (case find (\<lambda>m. user_id m = x) (rev (m # ms)) of
               Some m \<Rightarrow> Some \<lparr>user_id = x, username = username m, team_name = tn,
                                is_active = is_active m\<rparr>
             | None \<Rightarrow> find (\<lambda>row. user_id row = x) us)" for x
    by (cases "find (\<lambda>m. user_id m = x) (rev ms)")
       (auto simp: fnd find_snoc find_upsert_user)
  from r ids' fnd' show ?case unfolding step by blast
qed

lemma ids_SetUserActive:
  "map user_id (users (snd (SetUserActive s userID isActive))) = map user_id (users s)"
proof -
  have "map user_id (map (\<lambda>row. if user_id row = userID then row\<lparr>is_active := isActive\<rparr> else row) us)
      = map user_id us" for us
    by (induction us) auto
  then show ?thesis by (simp add: SetUserActive_def split: option.splits)
qed

lemma widths_ok_team:
  "widths_ok s \<Longrightarrow> t \<in> set (teams s) \<Longrightarrow> length t \<le> 100"
  by (simp add: widths_ok_def)

lemma CreateTeam_Inr:
  assumes "CreateTeam s team = (Inr (), s')"
  shows "\<exists>n us. varchar 100 (TeamName team) = Some n \<and> n \<notin> set (teams s)
     \<and> upsert_members (TeamName team) (Members team) (users s) = Some us
     \<and> s' = s\<lparr>teams := teams s @ [n], users := us\<rparr>"
proof (cases "varchar 100 (TeamName team)")
  case None
  with assms show ?thesis by (simp add: CreateTeam_def)
next
  case (Some n)
  with assms show ?thesis
    by (cases "upsert_members (TeamName team) (Members team) (users s)")
       (auto simp: CreateTeam_def split: if_splits)
qed

text \<open>
  Claim C7. In a store whose values fit their columns, \<^verbatim>\<open>CreateTeam\<close> fails with
  \<^verbatim>\<open>ErrTeamExists\<close>, leaving the store alone, whenever the team name is already in
  table \<^verbatim>\<open>teams\<close>. After a successful call the name that went into the column has
  been added to \<^verbatim>\<open>teams\<close> and was not there before, the user rows that existed keep
  their identifiers and positions and new identifiers are added behind them,
  identifiers that were unique stay unique, and the other tables are as they were. A
  call with a free name succeeds when the name and the identifiers and names of the
  members fit their columns (at most 100, 50 and 100 characters): the team is recorded,
  the identifiers of the users are those from before and those of the members, and
  looking a user up by an identifier gives the data of the last member with that
  identifier, on the new team, or else the row from before. \<^verbatim>\<open>SetUserActive\<close>, the only
  other writer of table \<^verbatim>\<open>users\<close>, keeps unique identifiers unique.
\<close>

theorem CreateTeam_create_only_upsert:
  "(widths_ok s \<and> TeamName team \<in> set (teams s) \<longrightarrow>
      CreateTeam s team = (Inl ErrTeamExists, s))
   \<and> (\<forall>s'. CreateTeam s team = (Inr (), s') \<longrightarrow>
        (\<exists>n. varchar 100 (TeamName team) = Some n \<and> n \<notin> set (teams s)
              \<and> teams s' = teams s @ [n])
        \<and> (distinct (map user_id (users s)) \<longrightarrow> distinct (map user_id (users s')))
        \<and> (\<exists>new. map user_id (users s') = map user_id (users s) @ new)
        \<and> pull_requests s' = pull_requests s \<and> pr_reviewers s' = pr_reviewers s)
   \<and> (TeamName team \<notin> set (teams s) \<and> length (TeamName team) \<le> 100
        \<and> (\<forall>m \<in> set (Members team). length (user_id m) \<le> 50 \<and> length (username m) \<le> 100)
        \<longrightarrow>
        (\<exists>s'. CreateTeam s team = (Inr (), s')
           \<and> teams s' = teams s @ [TeamName team]
           \<and> set (map user_id (users s')) =
                set (map user_id (users s)) \<union> set (map user_id (Members team))
           \<and> (\<forall>x. find (\<lambda>row. user_id row = x) (users s') =
                (case find (\<lambda>m. user_id m = x) (rev (Members team)) of
                   Some m \<Rightarrow> Some \<lparr>user_id = x, username = username m,
                                    team_name = TeamName team, is_active = is_active m\<rparr>
                 | None \<Rightarrow> find (\<lambda>row. user_id row = x) (users s)))))
   \<and> (distinct (map user_id (users s)) \<longrightarrow>
        distinct (map user_id (users (snd (SetUserActive s userID isActive)))))"
proof (intro conjI allI impI)
  assume h: "widths_ok s \<and> TeamName team \<in> set (teams s)"
  then have "length (TeamName team) \<le> 100" by (auto dest: widths_ok_team)
  then have "varchar 100 (TeamName team) = Some (TeamName team)" by (rule varchar_fits)
  with h show "CreateTeam s team = (Inl ErrTeamExists, s)" by (simp add: CreateTeam_def)
next
  fix s' assume ok: "CreateTeam s team = (Inr (), s')"
  from CreateTeam_Inr [OF ok] obtain n us where
    n: "varchar 100 (TeamName team) = Some n" "n \<notin> set (teams s)"
    and u: "upsert_members (TeamName team) (Members team) (users s) = Some us"
    and s': "s' = s\<lparr>teams := teams s @ [n], users := us\<rparr>"
    by blast
  show "\<exists>n. varchar 100 (TeamName team) = Some n \<and> n \<notin> set (teams s)
              \<and> teams s' = teams s @ [n]"
    using n s' by simp
  show "distinct (map user_id (users s'))" if "distinct (map user_id (users s))"
    using distinct_upsert_members [OF u that] s' by simp
  show "\<exists>new. map user_id (users s') = map user_id (users s) @ new"
    using ids_upsert_members_prefix [OF u] s' by simp
  show "pull_requests s' = pull_requests s" using s' by simp
  show "pr_reviewers s' = pr_reviewers s" using s' by simp
next
  assume h: "TeamName team \<notin> set (teams s) \<and> length (TeamName team) \<le> 100
        \<and> (\<forall>m \<in> set (Members team). length (user_id m) \<le> 50 \<and> length (username m) \<le> 100)"
  then have v: "varchar 100 (TeamName team) = Some (TeamName team)"
    by (simp add: varchar_fits)
  from h have "length (TeamName team) \<le> 100"
    and "\<forall>m \<in> set (Members team). length (user_id m) \<le> 50 \<and> length (username m) \<le> 100"
    by simp_all
  from upsert_members_fits [OF this, of "users s"] obtain us where
    u: "upsert_members (TeamName team) (Members team) (users s) = Some us"
    and ids: "set (map user_id us) = set (map user_id (users s)) \<union> set (map user_id (Members team))"
    and fnd: "\<forall>x. find (\<lambda>row. user_id row = x) us =
            (case find (\<lambda>m. user_id m = x) (rev (Members team)) of
               Some m \<Rightarrow> Some \<lparr>user_id = x, username = username m,
                                team_name = TeamName team, is_active = is_active m\<rparr>
             | None \<Rightarrow> find (\<lambda>row. user_id row = x) (users s))"
    by blast
  let ?s' = "s\<lparr>teams := teams s @ [TeamName team], users := us\<rparr>"
  have "CreateTeam s team = (Inr (), ?s')"
    using h v u by (simp add: CreateTeam_def)
  moreover have "teams ?s' = teams s @ [TeamName team]" by simp
  moreover have "set (map user_id (users ?s')) =
                set (map user_id (users s)) \<union> set (map user_id (Members team))"
    using ids by simp
  moreover have "\<forall>x. find (\<lambda>row. user_id row = x) (users ?s') =
                (case find (\<lambda>m. user_id m = x) (rev (Members team)) of
                   Some m \<Rightarrow> Some \<lparr>user_id = x, username = username m,
                                    team_name = TeamName team, is_active = is_active m\<rparr>
                 | None \<Rightarrow> find (\<lambda>row. user_id row = x) (users s))"
    using fnd by simp
  ultimately show "\<exists>s'. CreateTeam s team = (Inr (), s')
           \<and> teams s' = teams s @ [TeamName team]
           \<and> set (map user_id (users s')) =
                set (map user_id (users s)) \<union> set (map user_id (Members team))
           \<and> (\<forall>x. find (\<lambda>row. user_id row = x) (users s') =
                (case find (\<lambda>m. user_id m = x) (rev (Members team)) of
                   Some m \<Rightarrow> Some \<lparr>user_id = x, username = username m,
                                    team_name = TeamName team, is_active = is_active m\<rparr>
                 | None \<Rightarrow> find (\<lambda>row. user_id row = x) (users s)))"
    by blast
next
  assume "distinct (map user_id (users s))"
  then show "distinct (map user_id (users (snd (SetUserActive s userID isActive))))"
    by (simp only: ids_SetUserActive)
qed





subsection \<open>The properties on the example stores\<close>

lemma demo_users_distinct: "distinct (map user_id (users demo_db))"
  by (simp add: demo_db_def mk_user_def)

lemma demo_solo_users_distinct: "distinct (map user_id (users demo_solo))"
  by (simp add: demo_solo_def mk_user_def)

lemma demo_create:
  "CreatePR demo_db zero_rng coarse 30500 31 ''p2'' ''y'' ''A'' =
     (Inr \<lparr>ID = ''p2'', Name = ''y'', AuthorID = ''A'', Status = StatusOpen,
           AssignedReviewers = [''C'', ''D''], CreatedAt = 30500, MergedAt = None\<rparr>,
      demo_db\<lparr>pull_requests := pull_requests demo_db
          @ [\<lparr>pull_request_id = ''p2'', pull_request_name = ''y'', author_id = ''A'',
              status = StatusOpen, created_at = 30000, merged_at = None\<rparr>],
        pr_reviewers := pr_reviewers demo_db
          @ [\<lparr>pr_id = ''p2'', reviewer_id = ''C'', assigned_at = 31\<rparr>,
             \<lparr>pr_id = ''p2'', reviewer_id = ''D'', assigned_at = 31\<rparr>]\<rparr>)"
  by code_simp

lemma demo_solo_create:
  "CreatePR demo_solo zero_rng coarse 30500 31 ''p'' ''y'' ''E'' =
     (Inr \<lparr>ID = ''p'', Name = ''y'', AuthorID = ''E'', Status = StatusOpen,
           AssignedReviewers = [], CreatedAt = 30500, MergedAt = None\<rparr>,
      demo_solo\<lparr>pull_requests :=
          [\<lparr>pull_request_id = ''p'', pull_request_name = ''y'', author_id = ''E'',
            status = StatusOpen, created_at = 30000, merged_at = None\<rparr>]\<rparr>)"
  by code_simp

lemma demo_solo_long_id:
  "CreatePR demo_solo zero_rng coarse 30500 31 long_id ''y'' ''E'' = (Inl ErrDatabase, demo_solo)"
  by code_simp

lemma demo_refs_ok: "refs_ok demo_db"
  by (simp add: refs_ok_def demo_db_def)

lemma demo_pool_A: "eligible_pool demo_db ''A'' = {''B'', ''C'', ''D''}"
  by code_simp

lemma demo_solo_pool: "eligible_pool demo_solo ''E'' = {}"
  by code_simp

theorem CreatePR_reviewers_witness:
  "CreatePR demo_db zero_rng coarse 30500 31 ''p2'' ''y'' ''A'' =
     (Inr \<lparr>ID = ''p2'', Name = ''y'', AuthorID = ''A'', Status = StatusOpen,
           AssignedReviewers = [''C'', ''D''], CreatedAt = 30500, MergedAt = None\<rparr>,
      demo_db\<lparr>pull_requests := pull_requests demo_db
          @ [\<lparr>pull_request_id = ''p2'', pull_request_name = ''y'', author_id = ''A'',
              status = StatusOpen, created_at = 30000, merged_at = None\<rparr>],
        pr_reviewers := pr_reviewers demo_db
          @ [\<lparr>pr_id = ''p2'', reviewer_id = ''C'', assigned_at = 31\<rparr>,
             \<lparr>pr_id = ''p2'', reviewer_id = ''D'', assigned_at = 31\<rparr>]\<rparr>)
   \<and> ''A'' \<notin> set [''C'', ''D''] \<and> distinct [''C'', ''D'']
   \<and> length [''C'', ''D''] = min 2 (card (eligible_pool demo_db ''A''))
   \<and> set [''C'', ''D''] \<subseteq> eligible_pool demo_db ''A''
   \<and> eligible_pool demo_solo ''E'' = {}
   \<and> (\<exists>pr s'. CreatePR demo_solo zero_rng coarse 30500 31 ''p'' ''y'' ''E'' = (Inr pr, s')
          \<and> AssignedReviewers pr = [])
   \<and> (\<exists>pr s'. CreatePR demo_db (\<lambda>n. 7) coarse 30500 31 ''p3'' ''z'' ''B'' = (Inr pr, s'))"
proof -
  have g: "''B'' \<in> set (map user_id (users demo_db))
          \<and> ''p3'' \<notin> set (map pull_request_id (pull_requests demo_db))
          \<and> length ''p3'' \<le> 50 \<and> length ''z'' \<le> 200
          \<and> widths_ok demo_db \<and> refs_ok demo_db"
    by (simp add: demo_widths_ok demo_refs_ok) (simp add: demo_db_def mk_user_def)
  from CreatePR_reviewers [OF demo_users_distinct, of "\<lambda>n. 7" coarse 30500 31 "''p3''" "''z''" "''B''"] g
  have any: "\<exists>pr s'. CreatePR demo_db (\<lambda>n. 7) coarse 30500 31 ''p3'' ''z'' ''B'' = (Inr pr, s')"
    by blast
  note a = CreatePR_reviewers [OF demo_users_distinct, of zero_rng coarse 30500 31 "''p2''" "''y''" "''A''",
      THEN conjunct1, rule_format, OF demo_create]
  have e: "''E'' \<in> set (map user_id (users demo_solo))
      \<and> ''p'' \<notin> set (map pull_request_id (pull_requests demo_solo))
      \<and> length ''p'' \<le> 50 \<and> length ''y'' \<le> 200 \<and> length ''E'' \<le> 50
      \<and> eligible_pool demo_solo ''E'' = {}"
    by (simp add: demo_solo_pool) (simp add: demo_solo_def mk_user_def)
  from CreatePR_reviewers [OF demo_solo_users_distinct, of zero_rng coarse 30500 31 "''p''" "''y''" "''E''"] e
  have "\<exists>pr s'. CreatePR demo_solo zero_rng coarse 30500 31 ''p'' ''y'' ''E'' = (Inr pr, s')
          \<and> AssignedReviewers pr = []"
    by blast
  with a [simplified] demo_create demo_solo_pool any show ?thesis by simp
qed

lemma demo_create_team:
  "CreateTeam demo_db demo_team =
     (Inr (), demo_db\<lparr>teams := [''T'', ''U''],
        users := [mk_user ''A'' ''T'' True, mk_user ''B'' ''U'' False,
                  mk_user ''C'' ''T'' True, mk_user ''D'' ''T'' True, mk_user ''E'' ''U'' True]\<rparr>)"
  by code_simp

theorem CreateTeam_create_only_upsert_witness:
  "CreateTeam demo_db \<lparr>TeamName = ''T'', Members = []\<rparr> = (Inl ErrTeamExists, demo_db)
   \<and> CreateTeam demo_db demo_team =
       (Inr (), demo_db\<lparr>teams := [''T'', ''U''],
          users := [mk_user ''A'' ''T'' True, mk_user ''B'' ''U'' False,
                    mk_user ''C'' ''T'' True, mk_user ''D'' ''T'' True,
                    mk_user ''E'' ''U'' True]\<rparr>)
   \<and> (\<exists>s'. CreateTeam demo_db demo_team = (Inr (), s')
          \<and> teams s' = teams demo_db @ [''U'']
          \<and> set (map user_id (users s')) = set (map user_id (users demo_db)) \<union> {''B'', ''E''}
          \<and> find (\<lambda>row. user_id row = ''B'') (users s') = Some (mk_user ''B'' ''U'' False)
          \<and> find (\<lambda>row. user_id row = ''A'') (users s') = Some (mk_user ''A'' ''T'' True)
          \<and> distinct (map user_id (users s'))
          \<and> (\<exists>new. map user_id (users s') = map user_id (users demo_db) @ new))
   \<and> distinct (map user_id (users (snd (SetUserActive demo_db ''B'' False))))"
proof -
  note inst = CreateTeam_create_only_upsert [of demo_db _ "''B''" False]
  have t: "widths_ok demo_db \<and> TeamName \<lparr>TeamName = ''T'', Members = []\<rparr> \<in> set (teams demo_db)"
    by (simp add: demo_widths_ok) (simp add: demo_db_def)
  from inst [of "\<lparr>TeamName = ''T'', Members = []\<rparr>"] t
  have exists: "CreateTeam demo_db \<lparr>TeamName = ''T'', Members = []\<rparr> = (Inl ErrTeamExists, demo_db)"
    by blast
  have f: "TeamName demo_team \<notin> set (teams demo_db) \<and> length (TeamName demo_team) \<le> 100
        \<and> (\<forall>m \<in> set (Members demo_team). length (user_id m) \<le> 50 \<and> length (username m) \<le> 100)"
    by (simp add: demo_team_def demo_db_def mk_user_def)
  from inst [of demo_team] f obtain s' where
    ok: "CreateTeam demo_db demo_team = (Inr (), s')"
    and tm: "teams s' = teams demo_db @ [TeamName demo_team]"
    and ids: "set (map user_id (users s')) =
                set (map user_id (users demo_db)) \<union> set (map user_id (Members demo_team))"
    and fnd: "\<And>x. find (\<lambda>row. user_id row = x) (users s') =
                (case find (\<lambda>m. user_id m = x) (rev (Members demo_team)) of
                   Some m \<Rightarrow> Some \<lparr>user_id = x, username = username m,
                                    team_name = TeamName demo_team, is_active = is_active m\<rparr>
                 | None \<Rightarrow> find (\<lambda>row. user_id row = x) (users demo_db))"
    by blast
  note gen = inst [of demo_team, THEN conjunct2, THEN conjunct1, rule_format, OF ok]
  from gen demo_users_distinct have d: "distinct (map user_id (users s'))"
    and p: "\<exists>new. map user_id (users s') = map user_id (users demo_db) @ new"
    by blast+
  have b: "find (\<lambda>row. user_id row = ''B'') (users s') = Some (mk_user ''B'' ''U'' False)"
    unfolding fnd by (simp add: demo_team_def mk_user_def)
  have a: "find (\<lambda>row. user_id row = ''A'') (users s') = Some (mk_user ''A'' ''T'' True)"
    unfolding fnd by (simp add: demo_team_def demo_db_def mk_user_def)
  have tm': "teams s' = teams demo_db @ [''U'']" using tm by (simp add: demo_team_def)
  have ids': "set (map user_id (users s')) = set (map user_id (users demo_db)) \<union> {''B'', ''E''}"
    using ids by (simp add: demo_team_def mk_user_def)
  from inst [of demo_team] demo_users_distinct
  have sa: "distinct (map user_id (users (snd (SetUserActive demo_db ''B'' False))))"
    by blast
  from ok tm' ids' b a d p have "\<exists>s'. CreateTeam demo_db demo_team = (Inr (), s')
          \<and> teams s' = teams demo_db @ [''U'']
          \<and> set (map user_id (users s')) = set (map user_id (users demo_db)) \<union> {''B'', ''E''}
          \<and> find (\<lambda>row. user_id row = ''B'') (users s') = Some (mk_user ''B'' ''U'' False)
          \<and> find (\<lambda>row. user_id row = ''A'') (users s') = Some (mk_user ''A'' ''T'' True)
          \<and> distinct (map user_id (users s'))
          \<and> (\<exists>new. map user_id (users s') = map user_id (users demo_db) @ new)"
    by blast
  with exists demo_create_team sa show ?thesis by blast
qed




subsection \<open>Keys, widths and references in reachable stores\<close>

text \<open>
  Every writing method keeps the primary keys unique, the stored values within their
  columns and the reviewer rows on existing pull requests, so every store the service
  can reach from the empty schema has the three properties: the assumptions made above
  hold of all of them. The example store is one of them.
\<close>

lemma keys_ok_insert_reviewer:
  assumes "keys_ok s" and "insert_reviewer prID reviewer dbnow s = Some s'"
  shows "keys_ok s'"
proof -
  from insert_reviewer_Some [OF assms(2)] obtain p w where
    "(p, w) \<notin> set (map (\<lambda>x. (pr_id x, reviewer_id x)) (pr_reviewers s))"
    "s' = s\<lparr>pr_reviewers := pr_reviewers s
               @ [\<lparr>pr_id = p, reviewer_id = w, assigned_at = dbnow\<rparr>]\<rparr>"
    by blast
  with assms(1) show ?thesis by (simp add: keys_ok_def)
qed

lemma widths_ok_insert_reviewer:
  assumes "widths_ok s" and "insert_reviewer prID reviewer dbnow s = Some s'"
  shows "widths_ok s'"
proof -
  from insert_reviewer_Some [OF assms(2)] obtain p w where
    p: "varchar 50 prID = Some p" and w: "varchar 50 reviewer = Some w"
    and s': "s' = s\<lparr>pr_reviewers := pr_reviewers s
               @ [\<lparr>pr_id = p, reviewer_id = w, assigned_at = dbnow\<rparr>]\<rparr>"
    by blast
  from varchar_length [OF p] varchar_length [OF w] assms(1) show ?thesis
    unfolding s' by (simp add: widths_ok_def)
qed

lemma keys_ok_insert_reviewers:
  "keys_ok s \<Longrightarrow> insert_reviewers prID reviewers dbnow s = Some s' \<Longrightarrow> keys_ok s'"
proof (induction reviewers arbitrary: s)
  case Nil
  then show ?case by simp
next
  case (Cons x xs)
  from Cons.prems(2) obtain s1 where 1: "insert_reviewer prID x dbnow s = Some s1"
    and 2: "insert_reviewers prID xs dbnow s1 = Some s'"
    by (auto split: option.splits)
  from Cons.prems(1) 1 have "keys_ok s1" by (rule keys_ok_insert_reviewer)
  then show ?case using 2 by (rule Cons.IH)
qed

lemma widths_ok_insert_reviewers:
  "widths_ok s \<Longrightarrow> insert_reviewers prID reviewers dbnow s = Some s' \<Longrightarrow> widths_ok s'"
proof (induction reviewers arbitrary: s)
  case Nil
  then show ?case by simp
next
  case (Cons x xs)
  from Cons.prems(2) obtain s1 where 1: "insert_reviewer prID x dbnow s = Some s1"
    and 2: "insert_reviewers prID xs dbnow s1 = Some s'"
    by (auto split: option.splits)
  from Cons.prems(1) 1 have "widths_ok s1" by (rule widths_ok_insert_reviewer)
  then show ?case using 2 by (rule Cons.IH)
qed

lemma insert_pull_request_Some:
  assumes "insert_pull_request prID prName authorID t s = Some s'"
  shows "\<exists>i n a. varchar 50 prID = Some i \<and> varchar 200 prName = Some n
     \<and> varchar 50 authorID = Some a
     \<and> i \<notin> set (map pull_request_id (pull_requests s))
     \<and> s' = s\<lparr>pull_requests := pull_requests s
                 @ [\<lparr>pull_request_id = i, pull_request_name = n, author_id = a,
                     status = StatusOpen, created_at = t, merged_at = None\<rparr>]\<rparr>"
proof (cases "varchar 50 prID")
  case None
  with assms show ?thesis by (simp add: insert_pull_request_def)
next
  case i: (Some i)
  show ?thesis
  proof (cases "varchar 200 prName")
    case None
    with assms i show ?thesis by (simp add: insert_pull_request_def)
  next
    case n: (Some n)
    show ?thesis
    proof (cases "varchar 50 authorID")
      case None
      with assms i n show ?thesis by (simp add: insert_pull_request_def)
    next
      case (Some a)
      with assms i n show ?thesis
        by (simp add: insert_pull_request_def split: if_splits)
    qed
  qed
qed

lemma keys_ok_insert_pull_request:
  assumes "keys_ok s" and "insert_pull_request prID prName authorID t s = Some s'"
  shows "keys_ok s'"
proof -
  from insert_pull_request_Some [OF assms(2)] obtain i n a where
    "i \<notin> set (map pull_request_id (pull_requests s))"
    "s' = s\<lparr>pull_requests := pull_requests s
                 @ [\<lparr>pull_request_id = i, pull_request_name = n, author_id = a,
                     status = StatusOpen, created_at = t, merged_at = None\<rparr>]\<rparr>"
    by blast
  with assms(1) show ?thesis by (simp add: keys_ok_def)
qed

lemma widths_ok_insert_pull_request:
  assumes "widths_ok s" and "insert_pull_request prID prName authorID t s = Some s'"
  shows "widths_ok s'"
proof -
  from insert_pull_request_Some [OF assms(2)] obtain i n a where
    i: "varchar 50 prID = Some i" and n: "varchar 200 prName = Some n"
    and a: "varchar 50 authorID = Some a"
    and s': "s' = s\<lparr>pull_requests := pull_requests s
                 @ [\<lparr>pull_request_id = i, pull_request_name = n, author_id = a,
                     status = StatusOpen, created_at = t, merged_at = None\<rparr>]\<rparr>"
    by blast
  from varchar_length [OF i] varchar_length [OF n] varchar_length [OF a] assms(1)
  show ?thesis unfolding s' by (simp add: widths_ok_def)
qed

lemma set_upsert_user: "set (upsert_user u us) \<subseteq> insert u (set us)"
  by (auto simp: upsert_user_def)

lemma widths_upsert_members:
  "upsert_members tn ms us = Some us' \<Longrightarrow>
   \<forall>u \<in> set us. length (user_id u) \<le> 50 \<and> length (username u) \<le> 100
                  \<and> length (team_name u) \<le> 100 \<Longrightarrow>
   \<forall>u \<in> set us'. length (user_id u) \<le> 50 \<and> length (username u) \<le> 100
                   \<and> length (team_name u) \<le> 100"
proof (induction ms arbitrary: us)
  case Nil
  then show ?case by simp
next
  case (Cons m ms)
  from upsert_members_step [OF Cons.prems(1)] obtain u where
    u: "length (user_id u) \<le> 50 \<and> length (username u) \<le> 100 \<and> length (team_name u) \<le> 100"
    and r: "upsert_members tn ms (upsert_user u us) = Some us'"
    by blast
  from u Cons.prems(2) set_upsert_user [of u us]
  have "\<forall>v \<in> set (upsert_user u us). length (user_id v) \<le> 50 \<and> length (username v) \<le> 100
                  \<and> length (team_name v) \<le> 100"
    by blast
  with r show ?case by (rule Cons.IH)
qed

lemma CreateTeam_cases:
  "snd (CreateTeam s team) = s \<or> (\<exists>s'. CreateTeam s team = (Inr (), s'))"
proof (cases "varchar 100 (TeamName team)")
  case None
  then show ?thesis by (simp add: CreateTeam_def)
next
  case (Some n)
  then show ?thesis
    by (cases "upsert_members (TeamName team) (Members team) (users s)")
       (simp_all add: CreateTeam_def)
qed

lemma keys_ok_CreateTeam:
  assumes "keys_ok s"
  shows "keys_ok (snd (CreateTeam s team))"
proof -
  from CreateTeam_cases [of s team] show ?thesis
  proof
    assume "snd (CreateTeam s team) = s"
    with assms show ?thesis by simp
  next
    assume "\<exists>s'. CreateTeam s team = (Inr (), s')"
    then obtain s' where ok: "CreateTeam s team = (Inr (), s')" by blast
    from CreateTeam_Inr [OF ok] obtain n us where "n \<notin> set (teams s)"
      and u: "upsert_members (TeamName team) (Members team) (users s) = Some us"
      and s': "s' = s\<lparr>teams := teams s @ [n], users := us\<rparr>"
      by blast
    moreover from assms have "distinct (map user_id (users s))" by (simp add: keys_ok_def)
    with u have "distinct (map user_id us)" by (rule distinct_upsert_members)
    ultimately show ?thesis using assms ok by (simp add: keys_ok_def)
  qed
qed

lemma widths_ok_CreateTeam:
  assumes "widths_ok s"
  shows "widths_ok (snd (CreateTeam s team))"
proof -
  from CreateTeam_cases [of s team] show ?thesis
  proof
    assume "snd (CreateTeam s team) = s"
    with assms show ?thesis by simp
  next
    assume "\<exists>s'. CreateTeam s team = (Inr (), s')"
    then obtain s' where ok: "CreateTeam s team = (Inr (), s')" by blast
    from CreateTeam_Inr [OF ok] obtain n us where n: "varchar 100 (TeamName team) = Some n"
      and u: "upsert_members (TeamName team) (Members team) (users s) = Some us"
      and s': "s' = s\<lparr>teams := teams s @ [n], users := us\<rparr>"
      by blast
    from assms have "\<forall>u \<in> set (users s). length (user_id u) \<le> 50
        \<and> length (username u) \<le> 100 \<and> length (team_name u) \<le> 100"
      by (simp add: widths_ok_def)
    with u have "\<forall>u \<in> set us. length (user_id u) \<le> 50
        \<and> length (username u) \<le> 100 \<and> length (team_name u) \<le> 100"
      by (rule widths_upsert_members)
    with varchar_length [OF n] assms ok show ?thesis
      unfolding s' by (simp add: widths_ok_def)
  qed
qed

lemma SetUserActive_tables:
  "teams (snd (SetUserActive s userID isActive)) = teams s
   \<and> pull_requests (snd (SetUserActive s userID isActive)) = pull_requests s
   \<and> pr_reviewers (snd (SetUserActive s userID isActive)) = pr_reviewers s"
  by (simp add: SetUserActive_def split: option.splits)

lemma keys_ok_SetUserActive: "keys_ok s \<Longrightarrow> keys_ok (snd (SetUserActive s userID isActive))"
  using ids_SetUserActive [of s userID isActive] SetUserActive_tables [of s userID isActive]
  by (simp add: keys_ok_def)

lemma widths_ok_SetUserActive:
  assumes "widths_ok s"
  shows "widths_ok (snd (SetUserActive s userID isActive))"
proof -
  have "\<forall>u \<in> set (users (snd (SetUserActive s userID isActive))).
      \<exists>v \<in> set (users s). user_id u = user_id v \<and> username u = username v
         \<and> team_name u = team_name v"
    by (auto simp: SetUserActive_def split: option.splits)
  with assms SetUserActive_tables [of s userID isActive] show ?thesis
    unfolding widths_ok_def by (metis (no_types, lifting))
qed

lemma CreatePR_cases:
  "snd (CreatePR s r ts now dbnow reqID reqName reqAuthorID) = s
   \<or> (\<exists>rv s1. insert_pull_request reqID reqName reqAuthorID (ts now) s = Some s1
        \<and> insert_reviewers reqID rv dbnow s1 =
            Some (snd (CreatePR s r ts now dbnow reqID reqName reqAuthorID)))"
  by (auto simp: CreatePR_def Let_def split: option.splits)

lemma keys_ok_CreatePR:
  assumes "keys_ok s"
  shows "keys_ok (snd (CreatePR s r ts now dbnow reqID reqName reqAuthorID))"
proof -
  from CreatePR_cases [of s r ts now dbnow reqID reqName reqAuthorID] show ?thesis
  proof
    assume "snd (CreatePR s r ts now dbnow reqID reqName reqAuthorID) = s"
    with assms show ?thesis by simp
  next
    assume "\<exists>rv s1. insert_pull_request reqID reqName reqAuthorID (ts now) s = Some s1
        \<and> insert_reviewers reqID rv dbnow s1 =
            Some (snd (CreatePR s r ts now dbnow reqID reqName reqAuthorID))"
    then obtain rv s1 where 1: "insert_pull_request reqID reqName reqAuthorID (ts now) s = Some s1"
      and 2: "insert_reviewers reqID rv dbnow s1 =
            Some (snd (CreatePR s r ts now dbnow reqID reqName reqAuthorID))"
      by blast
    from assms 1 have "keys_ok s1" by (rule keys_ok_insert_pull_request)
    then show ?thesis using 2 by (rule keys_ok_insert_reviewers)
  qed
qed

lemma widths_ok_CreatePR:
  assumes "widths_ok s"
  shows "widths_ok (snd (CreatePR s r ts now dbnow reqID reqName reqAuthorID))"
proof -
  from CreatePR_cases [of s r ts now dbnow reqID reqName reqAuthorID] show ?thesis
  proof
    assume "snd (CreatePR s r ts now dbnow reqID reqName reqAuthorID) = s"
    with assms show ?thesis by simp
  next
    assume "\<exists>rv s1. insert_pull_request reqID reqName reqAuthorID (ts now) s = Some s1
        \<and> insert_reviewers reqID rv dbnow s1 =
            Some (snd (CreatePR s r ts now dbnow reqID reqName reqAuthorID))"
    then obtain rv s1 where 1: "insert_pull_request reqID reqName reqAuthorID (ts now) s = Some s1"
      and 2: "insert_reviewers reqID rv dbnow s1 =
            Some (snd (CreatePR s r ts now dbnow reqID reqName reqAuthorID))"
      by blast
    from assms 1 have "widths_ok s1" by (rule widths_ok_insert_pull_request)
    then show ?thesis using 2 by (rule widths_ok_insert_reviewers)
  qed
qed

lemma keys_ok_MergePR:
  "keys_ok s \<Longrightarrow> keys_ok (snd (MergePR s ts now prID))"
  by (simp add: MergePR_def keys_ok_def ids_merge_rows split: sum.splits)

lemma widths_ok_MergePR:
  "widths_ok s \<Longrightarrow> widths_ok (snd (MergePR s ts now prID))"
  by (auto simp: MergePR_def widths_ok_def split: sum.splits)

lemma ReassignReviewer_cases:
  "snd (ReassignReviewer s r dbnow reqPRID reqOldReviewer) = s
   \<or> (\<exists>new. insert_reviewer reqPRID new dbnow
           (s\<lparr>pr_reviewers := filter (\<lambda>x. \<not> (pr_id x = reqPRID \<and> reviewer_id x = reqOldReviewer))
                                      (pr_reviewers s)\<rparr>)
        = Some (snd (ReassignReviewer s r dbnow reqPRID reqOldReviewer)))"
  by (auto simp: ReassignReviewer_def Let_def split: sum.splits option.splits prod.splits)

lemma keys_ok_ReassignReviewer:
  assumes "keys_ok s"
  shows "keys_ok (snd (ReassignReviewer s r dbnow reqPRID reqOldReviewer))"
proof -
  from ReassignReviewer_cases [of s r dbnow reqPRID reqOldReviewer] show ?thesis
  proof
    assume "snd (ReassignReviewer s r dbnow reqPRID reqOldReviewer) = s"
    with assms show ?thesis by simp
  next
    assume "\<exists>new. insert_reviewer reqPRID new dbnow
           (s\<lparr>pr_reviewers := filter (\<lambda>x. \<not> (pr_id x = reqPRID \<and> reviewer_id x = reqOldReviewer))
                                      (pr_reviewers s)\<rparr>)
        = Some (snd (ReassignReviewer s r dbnow reqPRID reqOldReviewer))"
    then obtain new where i: "insert_reviewer reqPRID new dbnow
           (s\<lparr>pr_reviewers := filter (\<lambda>x. \<not> (pr_id x = reqPRID \<and> reviewer_id x = reqOldReviewer))
                                      (pr_reviewers s)\<rparr>)
        = Some (snd (ReassignReviewer s r dbnow reqPRID reqOldReviewer))"
      by blast
    from assms have "keys_ok (s\<lparr>pr_reviewers :=
        filter (\<lambda>x. \<not> (pr_id x = reqPRID \<and> reviewer_id x = reqOldReviewer)) (pr_reviewers s)\<rparr>)"
      by (simp add: keys_ok_def distinct_map_filter)
    then show ?thesis using i by (rule keys_ok_insert_reviewer)
  qed
qed

lemma widths_ok_ReassignReviewer:
  assumes "widths_ok s"
  shows "widths_ok (snd (ReassignReviewer s r dbnow reqPRID reqOldReviewer))"
proof -
  from ReassignReviewer_cases [of s r dbnow reqPRID reqOldReviewer] show ?thesis
  proof
    assume "snd (ReassignReviewer s r dbnow reqPRID reqOldReviewer) = s"
    with assms show ?thesis by simp
  next
    assume "\<exists>new. insert_reviewer reqPRID new dbnow
           (s\<lparr>pr_reviewers := filter (\<lambda>x. \<not> (pr_id x = reqPRID \<and> reviewer_id x = reqOldReviewer))
                                      (pr_reviewers s)\<rparr>)
        = Some (snd (ReassignReviewer s r dbnow reqPRID reqOldReviewer))"
    then obtain new where i: "insert_reviewer reqPRID new dbnow
           (s\<lparr>pr_reviewers := filter (\<lambda>x. \<not> (pr_id x = reqPRID \<and> reviewer_id x = reqOldReviewer))
                                      (pr_reviewers s)\<rparr>)
        = Some (snd (ReassignReviewer s r dbnow reqPRID reqOldReviewer))"
      by blast
    from assms have "widths_ok (s\<lparr>pr_reviewers :=
        filter (\<lambda>x. \<not> (pr_id x = reqPRID \<and> reviewer_id x = reqOldReviewer)) (pr_reviewers s)\<rparr>)"
      by (simp add: widths_ok_def)
    then show ?thesis using i by (rule widths_ok_insert_reviewer)
  qed
qed

lemma refs_ok_insert_reviewer:
  assumes "refs_ok s" and "insert_reviewer prID reviewer dbnow s = Some s'"
  shows "refs_ok s'"
proof -
  from insert_reviewer_Some [OF assms(2)] obtain p w where
    "p \<in> set (map pull_request_id (pull_requests s))"
    "s' = s\<lparr>pr_reviewers := pr_reviewers s
               @ [\<lparr>pr_id = p, reviewer_id = w, assigned_at = dbnow\<rparr>]\<rparr>"
    by blast
  with assms(1) show ?thesis by (simp add: refs_ok_def)
qed

lemma refs_ok_insert_reviewers:
  "refs_ok s \<Longrightarrow> insert_reviewers prID reviewers dbnow s = Some s' \<Longrightarrow> refs_ok s'"
proof (induction reviewers arbitrary: s)
  case Nil
  then show ?case by simp
next
  case (Cons x xs)
  from Cons.prems(2) obtain s1 where 1: "insert_reviewer prID x dbnow s = Some s1"
    and 2: "insert_reviewers prID xs dbnow s1 = Some s'"
    by (auto split: option.splits)
  from Cons.prems(1) 1 have "refs_ok s1" by (rule refs_ok_insert_reviewer)
  then show ?case using 2 by (rule Cons.IH)
qed

lemma refs_ok_insert_pull_request:
  assumes "refs_ok s" and "insert_pull_request prID prName authorID t s = Some s'"
  shows "refs_ok s'"
proof -
  from insert_pull_request_Some [OF assms(2)] obtain i n a where
    "s' = s\<lparr>pull_requests := pull_requests s
                 @ [\<lparr>pull_request_id = i, pull_request_name = n, author_id = a,
                     status = StatusOpen, created_at = t, merged_at = None\<rparr>]\<rparr>"
    by blast
  with assms(1) show ?thesis by (simp add: refs_ok_def)
qed

lemma refs_ok_CreateTeam:
  assumes "refs_ok s"
  shows "refs_ok (snd (CreateTeam s team))"
proof -
  from CreateTeam_cases [of s team] show ?thesis
  proof
    assume "snd (CreateTeam s team) = s"
    with assms show ?thesis by simp
  next
    assume "\<exists>s'. CreateTeam s team = (Inr (), s')"
    then obtain s' where ok: "CreateTeam s team = (Inr (), s')" by blast
    from CreateTeam_Inr [OF ok] obtain n us where
      "s' = s\<lparr>teams := teams s @ [n], users := us\<rparr>" by blast
    with assms ok show ?thesis by (simp add: refs_ok_def)
  qed
qed

lemma refs_ok_SetUserActive: "refs_ok s \<Longrightarrow> refs_ok (snd (SetUserActive s userID isActive))"
  using SetUserActive_tables [of s userID isActive] by (simp add: refs_ok_def)

lemma refs_ok_CreatePR:
  assumes "refs_ok s"
  shows "refs_ok (snd (CreatePR s r ts now dbnow reqID reqName reqAuthorID))"
proof -
  from CreatePR_cases [of s r ts now dbnow reqID reqName reqAuthorID] show ?thesis
  proof
    assume "snd (CreatePR s r ts now dbnow reqID reqName reqAuthorID) = s"
    with assms show ?thesis by simp
  next
    assume "\<exists>rv s1. insert_pull_request reqID reqName reqAuthorID (ts now) s = Some s1
        \<and> insert_reviewers reqID rv dbnow s1 =
            Some (snd (CreatePR s r ts now dbnow reqID reqName reqAuthorID))"
    then obtain rv s1 where 1: "insert_pull_request reqID reqName reqAuthorID (ts now) s = Some s1"
      and 2: "insert_reviewers reqID rv dbnow s1 =
            Some (snd (CreatePR s r ts now dbnow reqID reqName reqAuthorID))"
      by blast
    from assms 1 have "refs_ok s1" by (rule refs_ok_insert_pull_request)
    then show ?thesis using 2 by (rule refs_ok_insert_reviewers)
  qed
qed

lemma ids_merge_rows_plain:
  "map pull_request_id (map (\<lambda>p. if pull_request_id p = prID
                               then p\<lparr>status := StatusMerged, merged_at := t\<rparr>
                               else p) ps) = map pull_request_id ps"
  by (simp add: ids_merge_rows)

lemma refs_ok_MergePR:
  assumes "refs_ok s"
  shows "refs_ok (snd (MergePR s ts now prID))"
proof -
  have "pr_reviewers (snd (MergePR s ts now prID)) = pr_reviewers s"
    by (simp add: MergePR_def split: sum.splits)
  moreover have "map pull_request_id (pull_requests (snd (MergePR s ts now prID)))
      = map pull_request_id (pull_requests s)"
    by (simp add: MergePR_def ids_merge_rows split: sum.splits)
  ultimately show ?thesis using assms unfolding refs_ok_def by simp
qed

lemma refs_ok_ReassignReviewer:
  assumes "refs_ok s"
  shows "refs_ok (snd (ReassignReviewer s r dbnow reqPRID reqOldReviewer))"
proof -
  from ReassignReviewer_cases [of s r dbnow reqPRID reqOldReviewer] show ?thesis
  proof
    assume "snd (ReassignReviewer s r dbnow reqPRID reqOldReviewer) = s"
    with assms show ?thesis by simp
  next
    assume "\<exists>new. insert_reviewer reqPRID new dbnow
           (s\<lparr>pr_reviewers := filter (\<lambda>x. \<not> (pr_id x = reqPRID \<and> reviewer_id x = reqOldReviewer))
                                      (pr_reviewers s)\<rparr>)
        = Some (snd (ReassignReviewer s r dbnow reqPRID reqOldReviewer))"
    then obtain new where i: "insert_reviewer reqPRID new dbnow
           (s\<lparr>pr_reviewers := filter (\<lambda>x. \<not> (pr_id x = reqPRID \<and> reviewer_id x = reqOldReviewer))
                                      (pr_reviewers s)\<rparr>)
        = Some (snd (ReassignReviewer s r dbnow reqPRID reqOldReviewer))"
      by blast
    from assms have "refs_ok (s\<lparr>pr_reviewers :=
        filter (\<lambda>x. \<not> (pr_id x = reqPRID \<and> reviewer_id x = reqOldReviewer)) (pr_reviewers s)\<rparr>)"
      by (simp add: refs_ok_def)
    then show ?thesis using i by (rule refs_ok_insert_reviewer)
  qed
qed

lemma reachable_refs_ok: "reachable s \<Longrightarrow> refs_ok s"
proof (induction rule: reachable.induct)
  case init
  show ?case by (simp add: refs_ok_def empty_db_def)
qed (simp_all add: refs_ok_CreateTeam refs_ok_SetUserActive refs_ok_CreatePR refs_ok_MergePR
       refs_ok_ReassignReviewer)

lemma reachable_keys_ok: "reachable s \<Longrightarrow> keys_ok s"
proof (induction rule: reachable.induct)
  case init
  show ?case by (simp add: keys_ok_def empty_db_def)
qed (simp_all add: keys_ok_CreateTeam keys_ok_SetUserActive keys_ok_CreatePR keys_ok_MergePR
       keys_ok_ReassignReviewer)

lemma reachable_widths_ok: "reachable s \<Longrightarrow> widths_ok s"
proof (induction rule: reachable.induct)
  case init
  show ?case by (simp add: widths_ok_def empty_db_def)
qed (simp_all add: widths_ok_CreateTeam widths_ok_SetUserActive widths_ok_CreatePR
       widths_ok_MergePR widths_ok_ReassignReviewer)

lemma demo_db_reachable: "reachable demo_db"
proof -
  let ?team = "\<lparr>TeamName = ''T'', Members = [mk_user ''A'' ''T'' True, mk_user ''B'' ''T'' True,
               mk_user ''C'' ''T'' True, mk_user ''D'' ''T'' True]\<rparr>"
  have 1: "snd (CreateTeam empty_db ?team) = demo_db\<lparr>pull_requests := [], pr_reviewers := []\<rparr>"
    by code_simp
  have 2: "snd (CreatePR (demo_db\<lparr>pull_requests := [], pr_reviewers := []\<rparr>)
              (\<lambda>n. n - 1) (\<lambda>t. t) 10 11 ''p1'' ''x'' ''A'') = demo_db"
    by code_simp
  have "reachable (snd (CreateTeam empty_db ?team))"
    by (rule reachable.create_team) (rule reachable.init)
  then have "reachable (snd (CreatePR (demo_db\<lparr>pull_requests := [], pr_reviewers := []\<rparr>)
              (\<lambda>n. n - 1) (\<lambda>t. t) 10 11 ''p1'' ''x'' ''A''))"
    unfolding 1 by (rule reachable.create_pr)
  then show ?thesis by (simp only: 2)
qed

end
